theory Spec2Isabelle
  imports Main "HOL-Library.Sublist" "HOL-Library.AList" "HOL-Library.Word"
begin

section \<open>Python values, errors and the interpreter's state\<close>

text \<open>
  The two nodes of the repository are Python classes (\<^verbatim>\<open>StableWildcard\<close> and
  \<^verbatim>\<open>SpotlessTextSplitByDelimiter\<close>). Their arguments are dynamically typed, so the
  embedding has a datatype of the Python values they can be handed. A \<^verbatim>\<open>str\<close> that
  is an input is a list of characters (every character here is one of the 256 code points
  of Latin-1); a decoded delimiter can have any code point and is a list of numbers. An
  \<^verbatim>\<open>int\<close> is unbounded, a \<^verbatim>\<open>float\<close> is its 64 bits, and a \<^verbatim>\<open>dict\<close> is an
  association list in insertion order whose keys are strings, as in the JSON workflow of
  the host.
\<close>

datatype pyval =
    PNone
  | PBool bool
  | PInt int
  | PFloat "64 word"
  | PStr string
  | PList "pyval list"
  | PDict "(string \<times> pyval) list"

text \<open>
  Exceptions are values: the class of the exception, without its message.
\<close>

datatype error =
    TypeError
  | ValueError
  | IndexError
  | KeyError
  | AttributeError
  | UnicodeDecodeError

text \<open>\<^verbatim>\<open>isinstance(v, str)\<close>\<close>

fun isinstance_str :: "pyval \<Rightarrow> bool" where
  "isinstance_str (PStr _) = True"
| "isinstance_str _ = False"

text \<open>\<^verbatim>\<open>isinstance(v, int)\<close>: \<^verbatim>\<open>bool\<close> is a subclass of \<^verbatim>\<open>int\<close> in Python.\<close>

fun isinstance_int :: "pyval \<Rightarrow> bool" where
  "isinstance_int (PInt _) = True"
| "isinstance_int (PBool _) = True"
| "isinstance_int _ = False"

text \<open>\<^verbatim>\<open>isinstance(v, dict)\<close>\<close>

fun isinstance_dict :: "pyval \<Rightarrow> bool" where
  "isinstance_dict (PDict _) = True"
| "isinstance_dict _ = False"

text \<open>\<^verbatim>\<open>int(v)\<close> on an instance of \<^verbatim>\<open>int\<close>.\<close>

fun int_of :: "pyval \<Rightarrow> int" where
  "int_of (PInt i) = i"
| "int_of (PBool b) = (if b then 1 else 0)"
| "int_of _ = 0"

fun str_of :: "pyval \<Rightarrow> string" where
  "str_of (PStr s) = s"
| "str_of _ = []"

text \<open>
  \<^verbatim>\<open>random.Random\<close> belongs to Python's library, not to the repository, so the generator
  is a parameter: \<open>seed_random x\<close> is the state of \<^verbatim>\<open>Random(x)\<close>, and \<open>randint g a b\<close>
  is the number \<^verbatim>\<open>g.randint(a, b)\<close> returns together with the generator's next state.
\<close>

record 'g random =
  seed_random :: "int \<Rightarrow> 'g"
  randint :: "'g \<Rightarrow> int \<Rightarrow> int \<Rightarrow> int \<times> 'g"

text \<open>What Python's documentation promises of \<^verbatim>\<open>randint(a, b)\<close>: a number \<open>N\<close> with \<open>a \<le> N \<le> b\<close>.\<close>

definition randint_ok :: "'g random \<Rightarrow> bool" where
  "randint_ok R \<longleftrightarrow>
     (\<forall>g a b. a \<le> b \<longrightarrow> a \<le> fst (randint R g a b) \<and> fst (randint R g a b) \<le> b)"

text \<open>
  A small congruential generator, used where an example needs a generator to run.
\<close>

definition sample_random :: "nat random" where
  "sample_random =
     \<lparr> seed_random = (\<lambda>x. nat \<bar>x\<bar>),
       randint = (\<lambda>g a b.
         let g' = (1103515245 * g + 12345) mod 2147483648
         in (a + int (g' mod nat (b - a + 1)), g')) \<rparr>"

text \<open>
  What a call can see of the interpreter besides its arguments: the lines printed so far,
  and the state of the generator shared by the functions of the module \<^verbatim>\<open>random\<close>.
\<close>

datatype console_line =
    Result_line pyval string
  | Warn_namespace_not_dict
  | Warn_extra_not_dict
  | Note_workflow_missing
  | Note_hidden_missing

record 'g world =
  console :: "console_line list"
  shared_random :: 'g

section \<open>Strings\<close>

text \<open>The pattern \<^verbatim>\<open>{[^{}]+}\<close> of \<^verbatim>\<open>WILDCARD_PATTERN\<close>, matched at the head of a string:
  an opening brace, the longest run of characters that are no braces, which must not be
  empty, and a closing brace. The result is the matched text and what follows it.\<close>

definition is_brace :: "char \<Rightarrow> bool" where
  "is_brace c \<longleftrightarrow> c = CHR ''{'' \<or> c = CHR ''}''"

fun match_at :: "string \<Rightarrow> (string \<times> string) option" where
  "match_at [] = None"
| "match_at (c # cs) =
     (if c = CHR ''{'' then
        (let body = takeWhile (\<lambda>x. \<not> is_brace x) cs;
             rest = dropWhile (\<lambda>x. \<not> is_brace x) cs
         in case rest of
              [] \<Rightarrow> None
            | r # rs \<Rightarrow> if body \<noteq> [] \<and> r = CHR ''}'' then Some (c # body @ [r], rs) else None)
      else None)"

text \<open>\<^verbatim>\<open>WILDCARD_PATTERN.search(s)\<close>: the leftmost match, as the text before it, the
  matched text (\<^verbatim>\<open>match.group()\<close>) and the text after it; \<open>None\<close> when nothing matches.\<close>

fun search :: "string \<Rightarrow> (string \<times> string \<times> string) option" where
  "search [] = None"
| "search (c # cs) =
     (case match_at (c # cs) of
        Some (grp, rest) \<Rightarrow> Some ([], grp, rest)
      | None \<Rightarrow>
          (case search cs of
             None \<Rightarrow> None
           | Some (pre, grp, rest) \<Rightarrow> Some (c # pre, grp, rest)))"

text \<open>\<^verbatim>\<open>s[1:-1]\<close>\<close>

definition interior :: "string \<Rightarrow> string" where
  "interior s = butlast (tl s)"

text \<open>\<^verbatim>\<open>s.split(sep)\<close> for a separator that is not empty (Python raises ValueError on an
  empty one, see \<open>str_split\<close>). The elements are characters, or code points where the
  separator is a decoded delimiter.\<close>

function py_split :: "'a list \<Rightarrow> 'a list \<Rightarrow> 'a list list" where
  "py_split sep s =
     (if s = [] then [[]]
      else if sep \<noteq> [] \<and> prefix sep s then [] # py_split sep (drop (length sep) s)
      else (case py_split sep (tl s) of
              [] \<Rightarrow> [[hd s]]
            | seg # segs \<Rightarrow> (hd s # seg) # segs))"
  by pat_completeness auto
termination
  by (relation "measure (\<lambda>(sep, s). length s)") (auto simp: prefix_def)

declare py_split.simps [simp del]

definition str_split :: "'a list \<Rightarrow> 'a list \<Rightarrow> error + 'a list list" where
  "str_split s sep = (if sep = [] then Inl ValueError else Inr (py_split sep s))"

text \<open>\<^verbatim>\<open>s.replace(old, new, 1)\<close>: the first occurrence of \<open>old\<close> replaced.\<close>

fun replace_first :: "string \<Rightarrow> string \<Rightarrow> string \<Rightarrow> string" where
  "replace_first [] old new = (if old = [] then new else [])"
| "replace_first (c # cs) old new =
     (if prefix old (c # cs) then new @ drop (length old) (c # cs)
      else c # replace_first cs old new)"

text \<open>\<^verbatim>\<open>xs[i]\<close>, with Python's reading of an index below zero.\<close>

definition py_index :: "'a list \<Rightarrow> int \<Rightarrow> error + 'a" where
  "py_index xs i =
     (if 0 \<le> i \<and> i < int (length xs) then Inr (xs ! nat i)
      else if i < 0 \<and> - int (length xs) \<le> i then Inr (xs ! nat (int (length xs) + i))
      else Inl IndexError)"

text \<open>
  \<^verbatim>\<open>s.strip()\<close> removes the characters that \<^verbatim>\<open>str.isspace\<close> accepts from both ends;
  among the 8-bit characters these are the ASCII white space, the four separators
  \<^verbatim>\<open>\x1c\<close> to \<^verbatim>\<open>\x1f\<close>, \<^verbatim>\<open>\x85\<close> and \<^verbatim>\<open>\xa0\<close>.
\<close>

definition is_space :: "char \<Rightarrow> bool" where
  "is_space c \<longleftrightarrow> (of_char c :: nat) \<in> {9, 10, 11, 12, 13, 28, 29, 30, 31, 32, 133, 160}"

definition strip :: "string \<Rightarrow> string" where
  "strip s = rev (dropWhile is_space (rev (dropWhile is_space s)))"

text \<open>
  \<^verbatim>\<open>xs[start:stop:step]\<close>, as CPython computes it: both bounds are brought into the
  list (\<open>adjust_index\<close>), the number of elements follows from them (\<open>slice_length\<close>), and
  a step of zero raises ValueError.
\<close>

definition adjust_index :: "int \<Rightarrow> int \<Rightarrow> int \<Rightarrow> int" where
  "adjust_index i n step =
     (if i < 0 then (if i + n < 0 then (if step < 0 then - 1 else 0) else i + n)
      else if n \<le> i then (if step < 0 then n - 1 else n)
      else i)"

definition slice_length :: "int \<Rightarrow> int \<Rightarrow> int \<Rightarrow> int" where
  "slice_length start stop step =
     (if step < 0 then (if stop < start then (start - stop - 1) div (- step) + 1 else 0)
      else (if start < stop then (stop - start - 1) div step + 1 else 0))"

definition py_slice :: "'a list \<Rightarrow> int \<Rightarrow> int \<Rightarrow> int \<Rightarrow> error + 'a list" where
  "py_slice xs start stop step =
     (if step = 0 then Inl ValueError
      else
        (let n = int (length xs);
             a = adjust_index start n step;
             b = adjust_index stop n step
         in Inr (map (\<lambda>j. xs ! nat (a + int j * step)) [0 ..< nat (slice_length a b step)])))"

text \<open>
  \<^verbatim>\<open>codecs.decode(s, 'unicode_escape')\<close> on a \<^verbatim>\<open>str\<close>, as CPython's codec computes it.
  The codec works on bytes, so Python first encodes the string as UTF-8 (\<open>utf8_encode\<close>);
  a byte that is no backslash stands for the code point of the same number, and a backslash
  starts an escape (\<open>escape_at\<close>, on what follows the backslash: the code points it denotes
  and the number of characters it takes). The result is the list of the code points, which
  can lie above 255. A backslash at the end, a hexadecimal escape that is cut short or has
  a digit that is none, a code point above \<^verbatim>\<open>0x10FFFF\<close>, and a named escape
  \<^verbatim>\<open>\N{...}\<close> that is malformed or whose name is unknown raise UnicodeDecodeError; a
  backslash before any other character stays as it is. The table of the Unicode names
  (\<^verbatim>\<open>unicodedata\<close>) is a parameter: \<open>names n\<close> is the code point of the character that
  has the name \<open>n\<close>.
\<close>

definition utf8_encode :: "string \<Rightarrow> string" where
  "utf8_encode s =
     concat (map (\<lambda>c. if (of_char c :: nat) < 128 then [c]
                       else [char_of (192 + (of_char c :: nat) div 64),
                             char_of (128 + (of_char c :: nat) mod 64)]) s)"

definition oct_digit :: "char \<Rightarrow> nat option" where
  "oct_digit c =
     (let n = (of_char c :: nat)
      in if 48 \<le> n \<and> n \<le> 55 then Some (n - 48) else None)"

definition hex_digit :: "char \<Rightarrow> nat option" where
  "hex_digit c =
     (let n = (of_char c :: nat)
      in if 48 \<le> n \<and> n \<le> 57 then Some (n - 48)
         else if 97 \<le> n \<and> n \<le> 102 then Some (n - 87)
         else if 65 \<le> n \<and> n \<le> 70 then Some (n - 55)
         else None)"

fun hex_value :: "nat \<Rightarrow> string \<Rightarrow> nat option" where
  "hex_value acc [] = Some acc"
| "hex_value acc (c # cs) =
     (case hex_digit c of None \<Rightarrow> None | Some d \<Rightarrow> hex_value (16 * acc + d) cs)"

definition hex_escape :: "nat \<Rightarrow> string \<Rightarrow> error + nat list \<times> nat" where
  "hex_escape count s =
     (if length s < count then Inl UnicodeDecodeError
      else (case hex_value 0 (take count s) of
              None \<Rightarrow> Inl UnicodeDecodeError
            | Some v \<Rightarrow> if v > 1114111 then Inl UnicodeDecodeError else Inr ([v], Suc count)))"

definition oct_escape :: "nat \<Rightarrow> string \<Rightarrow> nat list \<times> nat" where
  "oct_escape d0 s =
     (case s of
        [] \<Rightarrow> ([d0], 1)
      | c1 # s1 \<Rightarrow>
          (case oct_digit c1 of
             None \<Rightarrow> ([d0], 1)
           | Some d1 \<Rightarrow>
               (case s1 of
                  [] \<Rightarrow> ([8 * d0 + d1], 2)
                | c2 # _ \<Rightarrow>
                    (case oct_digit c2 of
                       None \<Rightarrow> ([8 * d0 + d1], 2)
                     | Some d2 \<Rightarrow> ([8 * (8 * d0 + d1) + d2], 3)))))"

definition named_escape :: "(string \<Rightarrow> nat option) \<Rightarrow> string \<Rightarrow> error + nat list \<times> nat" where
  "named_escape names s =
     (case s of
        [] \<Rightarrow> Inl UnicodeDecodeError
      | b # rest \<Rightarrow>
          if b \<noteq> CHR ''{'' then Inl UnicodeDecodeError
          else
            (let name = takeWhile (\<lambda>x. x \<noteq> CHR ''}'') rest
             in if length name = length rest then Inl UnicodeDecodeError
                else if name = [] then Inl UnicodeDecodeError
                else (case names name of
                        None \<Rightarrow> Inl UnicodeDecodeError
                      | Some cp \<Rightarrow> Inr ([cp], length name + 3))))"

definition escape_at :: "(string \<Rightarrow> nat option) \<Rightarrow> string \<Rightarrow> error + nat list \<times> nat" where
  "escape_at names s =
     (case s of
        [] \<Rightarrow> Inl UnicodeDecodeError
      | c # cs \<Rightarrow>
          if c = CHR 0x0A then Inr ([], 1)
          else if c = CHR 0x5C then Inr ([92], 1)
          else if c = CHR 0x27 then Inr ([39], 1)
          else if c = CHR 0x22 then Inr ([34], 1)
          else if c = CHR ''b'' then Inr ([8], 1)
          else if c = CHR ''f'' then Inr ([12], 1)
          else if c = CHR ''t'' then Inr ([9], 1)
          else if c = CHR ''n'' then Inr ([10], 1)
          else if c = CHR ''r'' then Inr ([13], 1)
          else if c = CHR ''v'' then Inr ([11], 1)
          else if c = CHR ''a'' then Inr ([7], 1)
          else if oct_digit c \<noteq> None then Inr (oct_escape (of_char c - 48) cs)
          else if c = CHR ''x'' then hex_escape 2 cs
          else if c = CHR ''u'' then hex_escape 4 cs
          else if c = CHR ''U'' then hex_escape 8 cs
          else if c = CHR ''N'' then named_escape names cs
          else Inr ([92, of_char c], 1))"

function decode_escapes :: "(string \<Rightarrow> nat option) \<Rightarrow> string \<Rightarrow> error + nat list" where
  "decode_escapes names s =
     (case s of
        [] \<Rightarrow> Inr []
      | c # cs \<Rightarrow>
          if c \<noteq> CHR 0x5C then
            (case decode_escapes names cs of
               Inl e \<Rightarrow> Inl e
             | Inr out \<Rightarrow> Inr (of_char c # out))
          else
            (case escape_at names cs of
               Inl e \<Rightarrow> Inl e
             | Inr (cps, k) \<Rightarrow>
                 (case decode_escapes names (drop k cs) of
                    Inl e \<Rightarrow> Inl e
                  | Inr out \<Rightarrow> Inr (cps @ out))))"
  by pat_completeness auto
termination
  by (relation "measure (\<lambda>(names, s). length s)") auto

declare decode_escapes.simps [simp del]

definition unicode_escape_decode :: "(string \<Rightarrow> nat option) \<Rightarrow> string \<Rightarrow> error + nat list" where
  "unicode_escape_decode names s = decode_escapes names (utf8_encode s)"

text \<open>
  A few lines of the table of names, used where an example needs a table.
\<close>

definition sample_names :: "string \<Rightarrow> nat option" where
  "sample_names n =
     (if n = ''COMMA'' then Some 44
      else if n = ''HYPHEN-MINUS'' then Some 45
      else if n = ''LATIN CAPITAL LETTER A WITH MACRON'' then Some 256
      else None)"

section \<open>StableWildcard.process_wildcards\<close>

text \<open>
  The loop of \<^verbatim>\<open>process_wildcards\<close>, with the generator \<^verbatim>\<open>rng\<close> and the string
  \<^verbatim>\<open>prompt\<close> as its state. \<open>None\<close> is a loop that never ends: the \<^verbatim>\<open>continue\<close> of the
  source goes back to the test with \<^verbatim>\<open>match\<close> and \<^verbatim>\<open>prompt\<close> as they were.
\<close>

partial_function (option) wildcard_loop ::
  "'g random \<Rightarrow> 'g \<Rightarrow> string \<Rightarrow> (error + string) option" where
  "wildcard_loop R rng prompt =
     (case search prompt of
        None \<Rightarrow> Some (Inr prompt)
      | Some (pre, grp, post) \<Rightarrow>
          (let ops = py_split ''|'' (interior grp) in
           if ops = [] then wildcard_loop R rng prompt
           else (case randint R rng 0 (int (length ops) - 1) of
                   (i, rng') \<Rightarrow>
                     (case py_index ops i of
                        Inl e \<Rightarrow> Some (Inl e)
                      | Inr pick \<Rightarrow> wildcard_loop R rng' (replace_first prompt grp pick)))))"

definition process_wildcards ::
  "'g random \<Rightarrow> pyval \<Rightarrow> pyval \<Rightarrow> 'g world \<Rightarrow> (error + string) option \<times> 'g world" where
  "process_wildcards R prompt seed w =
     (if prompt = PNone then (Some (Inl TypeError), w)
      else if \<not> isinstance_str prompt then (Some (Inl TypeError), w)
      else if seed = PNone then (Some (Inl TypeError), w)
      else if \<not> isinstance_int seed then (Some (Inl TypeError), w)
      else
        (let rng = seed_random R (int_of seed)
         in (wildcard_loop R rng (str_of prompt), w)))"


section \<open>SpotlessTextSplitByDelimiter.run\<close>

text \<open>
  \<^verbatim>\<open>codecs.decode(delimiter, 'unicode_escape')\<close> is a call into Python's library, so the
  decoder is a parameter of \<open>run\<close>: \<open>decode s\<close> is the list of the code points of the
  decoded string, or the error the codec raises (\<open>unicode_escape_decode\<close> above is the
  codec itself). The text is split as a sequence of code points, and each segment, which is
  a part of the text, is a string again.
  The three window parameters are Python integers; the node's \<^verbatim>\<open>INPUT_TYPES\<close> gives
  \<^verbatim>\<open>start_index\<close> and \<^verbatim>\<open>skip_every\<close> the minimum 0 and \<^verbatim>\<open>max_count\<close> the minimum 1.
  The result is the list the node returns in its 1-tuple.
\<close>

definition codepoints :: "string \<Rightarrow> nat list" where
  "codepoints s = map of_char s"

definition text_of :: "nat list \<Rightarrow> string" where
  "text_of cps = map char_of cps"

definition run ::
  "(string \<Rightarrow> error + nat list) \<Rightarrow> string \<Rightarrow> string \<Rightarrow> int \<Rightarrow> int \<Rightarrow> int \<Rightarrow> error + string list" where
  "run decode text delimiter start_index skip_every max_count =
     (case (if delimiter = [] then Inr [strip text]
            else (case decode delimiter of
                    Inl e \<Rightarrow> Inl e
                  | Inr delimiter' \<Rightarrow>
                      (case str_split (codepoints text) delimiter' of
                         Inl e \<Rightarrow> Inl e
                       | Inr segs \<Rightarrow>
                           Inr (filter (\<lambda>line. strip line \<noteq> []) (map text_of segs))))) of
        Inl e \<Rightarrow> Inl e
      | Inr arr \<Rightarrow>
          py_slice arr start_index (start_index + max_count * (skip_every + 1)) (skip_every + 1))"

text \<open>
  The window as the specification words it: the elements of \<open>segs\<close> at the indices
  \<open>start\<close>, \<open>start + (skip + 1)\<close>, \<open>start + 2 * (skip + 1)\<close>, ..., at most \<open>maxc\<close> of
  them, as far as they lie within \<open>segs\<close>.
\<close>

definition window :: "'a list \<Rightarrow> nat \<Rightarrow> nat \<Rightarrow> nat \<Rightarrow> 'a list" where
  "window segs start skip maxc =
     map (\<lambda>i. segs ! i)
       (filter (\<lambda>i. i < length segs) (map (\<lambda>j. start + j * (skip + 1)) [0 ..< maxc]))"

section \<open>StableWildcard.execute\<close>

text \<open>
  Operations on objects whose type is not known before they run: \<^verbatim>\<open>k in obj\<close>,
  \<^verbatim>\<open>obj.get(k)\<close>, \<^verbatim>\<open>obj[k]\<close> and \<^verbatim>\<open>obj[k] = v\<close> for a string \<open>k\<close>. The last one
  returns the object as it is after the assignment.
\<close>

definition bind_err :: "error + 'a \<Rightarrow> ('a \<Rightarrow> error + 'b) \<Rightarrow> error + 'b" where
  "bind_err r f = (case r of Inl e \<Rightarrow> Inl e | Inr x \<Rightarrow> f x)"

fun py_in :: "string \<Rightarrow> pyval \<Rightarrow> error + bool" where
  "py_in k (PDict d) = Inr (map_of d k \<noteq> None)"
| "py_in k (PList xs) = Inr (PStr k \<in> set xs)"
| "py_in k (PStr s) = Inr (sublist k s)"
| "py_in k v = Inl TypeError"

fun py_get :: "pyval \<Rightarrow> string \<Rightarrow> error + pyval" where
  "py_get (PDict d) k = Inr (case map_of d k of None \<Rightarrow> PNone | Some v \<Rightarrow> v)"
| "py_get v k = Inl AttributeError"

fun py_getitem :: "pyval \<Rightarrow> string \<Rightarrow> error + pyval" where
  "py_getitem (PDict d) k = (case map_of d k of None \<Rightarrow> Inl KeyError | Some v \<Rightarrow> Inr v)"
| "py_getitem v k = Inl TypeError"

fun py_setitem :: "pyval \<Rightarrow> string \<Rightarrow> pyval \<Rightarrow> error + pyval" where
  "py_setitem (PDict d) k x = Inr (PDict (AList.update k x d))"
| "py_setitem v k x = Inl TypeError"

text \<open>
  A dictionary stored in another one is the same object as the one taken out of it, so an
  assignment into the inner one is seen through the outer one. Values here are trees, so
  the model puts the changed inner dictionary back into the outer one.
\<close>

fun put_back :: "pyval \<Rightarrow> string \<Rightarrow> pyval \<Rightarrow> pyval" where
  "put_back (PDict d) k inner = PDict (AList.update k inner d)"
| "put_back v k inner = v"

text \<open>
  The hidden inputs of the node, as \<^verbatim>\<open>kwargs.get\<close> reads them: the id the host gives the
  node (a string, or \<open>None\<close> when it is missing) and \<^verbatim>\<open>png_info\<close> (\<open>PNone\<close> when it is
  missing).
\<close>

record kwargs =
  unique_id :: "string option"
  png_info :: pyval

text \<open>
  The part of \<^verbatim>\<open>execute\<close> after the first \<^verbatim>\<open>print\<close>: it returns \<^verbatim>\<open>png_info\<close> as it is
  afterwards and the lines it printed.
\<close>

definition save_metadata ::
  "string option \<Rightarrow> pyval \<Rightarrow> string \<Rightarrow> error + pyval \<times> console_line list" where
  "save_metadata uid png prompt =
     (case uid of
        None \<Rightarrow> Inr (png, [Note_hidden_missing])
      | Some key \<Rightarrow>
          if png \<noteq> PNone \<and> isinstance_dict png then
            bind_err (py_get png ''workflow'') (\<lambda>workflow.
              if workflow \<noteq> PNone \<and> isinstance_dict workflow then
                bind_err (py_in ''extra'' workflow) (\<lambda>has_extra.
                bind_err (if \<not> has_extra then py_setitem workflow ''extra'' (PDict [])
                          else Inr workflow) (\<lambda>workflow.
                bind_err (py_get workflow ''extra'') (\<lambda>extra.
                  if isinstance_dict extra then
                    bind_err (py_getitem workflow ''extra'') (\<lambda>extra_data.
                    bind_err (py_in ''stable-wildcards'' extra_data) (\<lambda>has_namespace.
                    bind_err (if \<not> has_namespace
                              then py_setitem extra_data ''stable-wildcards'' (PDict [])
                              else Inr extra_data) (\<lambda>extra_data.
                    bind_err (py_get extra_data ''stable-wildcards'') (\<lambda>namespace.
                      if isinstance_dict namespace then
                        bind_err (py_getitem extra_data ''stable-wildcards'') (\<lambda>target.
                        bind_err (py_setitem target key (PStr prompt)) (\<lambda>target.
                          Inr (put_back png ''workflow''
                                 (put_back workflow ''extra''
                                    (put_back extra_data ''stable-wildcards'' target)), [])))
                      else
                        Inr (put_back png ''workflow'' (put_back workflow ''extra'' extra_data),
                             [Warn_namespace_not_dict])))))
                  else Inr (put_back png ''workflow'' workflow, [Warn_extra_not_dict]))))
              else Inr (png, [Note_workflow_missing]))
          else Inr (png, [Note_hidden_missing]))"

text \<open>
  \<^verbatim>\<open>execute\<close>: the outcome (the string of the 1-tuple it returns), \<^verbatim>\<open>png_info\<close> as the call
  leaves it, and the interpreter's state with the lines printed.
\<close>

definition execute ::
  "'g random \<Rightarrow> pyval \<Rightarrow> pyval \<Rightarrow> kwargs \<Rightarrow> 'g world \<Rightarrow>
     (error + string) option \<times> pyval \<times> 'g world" where
  "execute R prompt seed kw w =
     (if prompt = PNone then (Some (Inl TypeError), png_info kw, w)
      else if \<not> isinstance_str prompt then (Some (Inl TypeError), png_info kw, w)
      else if seed = PNone then (Some (Inl TypeError), png_info kw, w)
      else if \<not> isinstance_int seed then (Some (Inl TypeError), png_info kw, w)
      else
        (case process_wildcards R prompt seed w of
           (None, w1) \<Rightarrow> (None, png_info kw, w1)
         | (Some (Inl e), w1) \<Rightarrow> (Some (Inl e), png_info kw, w1)
         | (Some (Inr resolved), w1) \<Rightarrow>
             (let w2 = w1\<lparr>console := console w1 @ [Result_line seed resolved]\<rparr>
              in case save_metadata (unique_id kw) (png_info kw) resolved of
                   Inl e \<Rightarrow> (Some (Inl e), png_info kw, w2)
                 | Inr (png', printed) \<Rightarrow>
                     (Some (Inr resolved), png', w2\<lparr>console := console w2 @ printed\<rparr>))))"

text \<open>
  When the write can happen, as the specification words it: the id and \<^verbatim>\<open>png_info\<close> are
  there, \<^verbatim>\<open>png_info\<close> and its \<^verbatim>\<open>workflow\<close> are dictionaries, and \<^verbatim>\<open>extra\<close> and the
  \<^verbatim>\<open>stable-wildcards\<close> namespace are dictionaries or absent. \<open>stored_dict d k\<close> is the
  dictionary that \<open>d\<close> has under \<open>k\<close>, and the empty one when it has none.
\<close>

definition dict_or_absent :: "pyval option \<Rightarrow> bool" where
  "dict_or_absent v = (case v of None \<Rightarrow> True | Some (PDict _) \<Rightarrow> True | Some _ \<Rightarrow> False)"

definition stored_dict :: "(string \<times> pyval) list \<Rightarrow> string \<Rightarrow> (string \<times> pyval) list" where
  "stored_dict d k = (case map_of d k of Some (PDict e) \<Rightarrow> e | _ \<Rightarrow> [])"

definition metadata_writable :: "string option \<Rightarrow> pyval \<Rightarrow> bool" where
  "metadata_writable uid png \<longleftrightarrow>
     uid \<noteq> None \<and>
     (case png of
        PDict info \<Rightarrow>
          (case map_of info ''workflow'' of
             Some (PDict workflow) \<Rightarrow>
               dict_or_absent (map_of workflow ''extra'') \<and>
               dict_or_absent (map_of (stored_dict workflow ''extra'') ''stable-wildcards'')
           | _ \<Rightarrow> False)
      | _ \<Rightarrow> False)"

section \<open>The pattern, as the specification words it\<close>

text \<open>
  A wildcard group: an opening brace, one or more characters that are no braces, a closing
  brace. \<open>has_group s\<close> says that some substring of \<open>s\<close> is a group.
\<close>

definition is_group :: "string \<Rightarrow> bool" where
  "is_group g \<longleftrightarrow>
     (\<exists>body. g = CHR ''{'' # body @ [CHR ''}''] \<and> body \<noteq> [] \<and> (\<forall>c \<in> set body. \<not> is_brace c))"

definition has_group :: "string \<Rightarrow> bool" where
  "has_group s \<longleftrightarrow> (\<exists>pre g post. s = pre @ g @ post \<and> is_group g)"

text \<open>
  The number of wildcard groups in a string: the positions at which a group begins.
  (Two groups never overlap, since a group has no brace between its own two.)
\<close>

fun count_groups :: "string \<Rightarrow> nat" where
  "count_groups [] = 0"
| "count_groups (c # cs) =
     (case match_at (c # cs) of None \<Rightarrow> 0 | Some _ \<Rightarrow> 1) + count_groups cs"

section \<open>Facts about the pattern and the string functions\<close>

lemma py_split_nonempty: "py_split sep s \<noteq> []"
  by (subst py_split.simps) (simp split: list.splits)

lemma match_at_Some:
  assumes "match_at s = Some (grp, rest)"
  shows "s = grp @ rest \<and> is_group grp"
proof (cases s)
  case Nil
  with assms show ?thesis by simp
next
  case (Cons c cs)
  let ?body = "takeWhile (\<lambda>x. \<not> is_brace x) cs"
  let ?rest = "dropWhile (\<lambda>x. \<not> is_brace x) cs"
  from assms Cons obtain rs where c: "c = CHR ''{''" and r: "?rest = CHR ''}'' # rs"
    and b: "?body \<noteq> []" and g: "grp = c # ?body @ [CHR ''}'']" and rest: "rest = rs"
    by (auto simp: Let_def split: if_splits list.splits)
  have "cs = ?body @ ?rest" by simp
  with r have "cs = ?body @ CHR ''}'' # rs" by simp
  with Cons g rest have "s = grp @ rest" by simp
  moreover have "\<forall>x \<in> set ?body. \<not> is_brace x" by (auto dest: set_takeWhileD)
  with b g c have "is_group grp" unfolding is_group_def by blast
  ultimately show ?thesis by simp
qed

lemma match_at_group:
  assumes "is_group g"
  shows "match_at (g @ post) = Some (g, post)"
proof -
  from assms obtain body where g: "g = CHR ''{'' # body @ [CHR ''}'']" and ne: "body \<noteq> []"
    and nb: "\<forall>c \<in> set body. \<not> is_brace c"
    unfolding is_group_def by blast
  have tw: "takeWhile (\<lambda>x. \<not> is_brace x) (body @ CHR ''}'' # post) = body"
    using nb by (simp add: takeWhile_tail is_brace_def)
  have dw: "dropWhile (\<lambda>x. \<not> is_brace x) (body @ CHR ''}'' # post) = CHR ''}'' # post"
    using nb by (simp add: dropWhile_append3 is_brace_def)
  show ?thesis using ne by (simp add: g tw dw)
qed

lemma search_Some:
  "search s = Some (pre, grp, post) \<Longrightarrow> s = pre @ grp @ post \<and> is_group grp"
proof (induction s arbitrary: pre)
  case Nil
  then show ?case by simp
next
  case (Cons c cs)
  show ?case
  proof (cases "match_at (c # cs)")
    case (Some m)
    with Cons.prems have "pre = []" and "match_at (c # cs) = Some (grp, post)"
      by (auto split: prod.splits)
    then show ?thesis using match_at_Some by fastforce
  next
    case None
    with Cons.prems obtain pre' where "search cs = Some (pre', grp, post)" and "pre = c # pre'"
      by (auto split: option.splits)
    with Cons.IH show ?thesis by auto
  qed
qed

lemma search_None: "search s = None \<Longrightarrow> \<not> has_group s"
proof (induction s)
  case Nil
  then show ?case by (auto simp: has_group_def is_group_def)
next
  case (Cons c cs)
  from Cons.prems have m: "match_at (c # cs) = None" and s: "search cs = None"
    by (auto split: option.splits)
  show ?case
  proof
    assume "has_group (c # cs)"
    then obtain pre g post where eq: "c # cs = pre @ g @ post" and g: "is_group g"
      unfolding has_group_def by blast
    show False
    proof (cases pre)
      case Nil
      with eq g m show False by (simp add: match_at_group)
    next
      case (Cons p ps)
      with eq have "cs = ps @ g @ post" by simp
      with g have "has_group cs" unfolding has_group_def by blast
      with Cons.IH s show False by simp
    qed
  qed
qed

lemma search_iff: "search s = None \<longleftrightarrow> \<not> has_group s"
proof
  assume "search s = None" then show "\<not> has_group s" by (rule search_None)
next
  assume n: "\<not> has_group s"
  show "search s = None"
  proof (cases "search s")
    case None then show ?thesis .
  next
    case (Some t)
    obtain pre grp post where "t = (pre, grp, post)" by (cases t) auto
    with Some search_Some have "s = pre @ grp @ post \<and> is_group grp" by blast
    with n show ?thesis unfolding has_group_def by blast
  qed
qed

lemma replace_first_prefix:
  assumes "old \<noteq> []"
  shows "replace_first (old @ r) old new = new @ r"
proof -
  from assms obtain c cs where "old @ r = c # cs" by (cases old) auto
  then show ?thesis by (metis append_eq_conv_conj prefixI replace_first.simps(2))
qed

lemma is_group_nonempty: "is_group g \<Longrightarrow> g \<noteq> []"
  by (auto simp: is_group_def)

lemma replace_first_search:
  "search s = Some (pre, grp, post) \<Longrightarrow> replace_first s grp new = pre @ new @ post"
proof (induction s arbitrary: pre)
  case Nil
  then show ?case by simp
next
  case (Cons c cs)
  show ?case
  proof (cases "match_at (c # cs)")
    case (Some m)
    with Cons.prems have pre: "pre = []" and m: "match_at (c # cs) = Some (grp, post)"
      by (auto split: prod.splits)
    from m have "c # cs = grp @ post" and "is_group grp" using match_at_Some by blast+
    with pre show ?thesis by (simp add: replace_first_prefix is_group_nonempty)
  next
    case None
    with Cons.prems obtain pre' where s: "search cs = Some (pre', grp, post)" and pre: "pre = c # pre'"
      by (auto split: option.splits)
    from s have g: "is_group grp" using search_Some by blast
    have "\<not> prefix grp (c # cs)"
    proof
      assume "prefix grp (c # cs)"
      then obtain r where "c # cs = grp @ r" by (auto simp: prefix_def)
      with g None show False by (simp add: match_at_group)
    qed
    with Cons.IH [OF s] pre show ?thesis by simp
  qed
qed


lemma py_split_Nil: "py_split sep [] = [[]]"
  by (subst py_split.simps) simp

lemma py_split_at_sep:
  "s \<noteq> [] \<Longrightarrow> sep \<noteq> [] \<Longrightarrow> prefix sep s \<Longrightarrow>
   py_split sep s = [] # py_split sep (drop (length sep) s)"
  by (subst py_split.simps) simp

lemma py_split_char:
  "\<not> (sep \<noteq> [] \<and> prefix sep (c # cs)) \<Longrightarrow>
    py_split sep (c # cs) = (c # hd (py_split sep cs)) # tl (py_split sep cs)"
  using py_split_nonempty [of sep cs]
  by (subst py_split.simps) (auto split: list.splits)

lemma py_split_chars: "seg \<in> set (py_split sep s) \<Longrightarrow> set seg \<subseteq> set s"
proof (induction sep s arbitrary: seg rule: py_split.induct)
  case (1 sep s)
  show ?case
  proof (cases "s = []")
    case True
    with "1.prems" show ?thesis by (simp add: py_split_Nil)
  next
    case ne: False
    show ?thesis
    proof (cases "sep \<noteq> [] \<and> prefix sep s")
      case True
      with ne "1.prems" have "seg = [] \<or> seg \<in> set (py_split sep (drop (length sep) s))"
        by (simp add: py_split_at_sep)
      then show ?thesis
      proof
        assume "seg = []" then show ?thesis by simp
      next
        assume "seg \<in> set (py_split sep (drop (length sep) s))"
        with "1.IH"(1) ne True have "set seg \<subseteq> set (drop (length sep) s)" by blast
        then show ?thesis using set_drop_subset by fastforce
      qed
    next
      case False
      from ne obtain c cs where s: "s = c # cs" by (cases s) auto
      from "1.IH"(2) ne False s have IH: "\<And>x. x \<in> set (py_split sep cs) \<Longrightarrow> set x \<subseteq> set cs"
        by simp
      obtain seg0 segs where r: "py_split sep cs = seg0 # segs"
        using py_split_nonempty [of sep cs] by (cases "py_split sep cs") auto
      from "1.prems" False s r have "seg = c # seg0 \<or> seg \<in> set segs"
        by (simp add: py_split_char)
      then show ?thesis
      proof
        assume "seg = c # seg0"
        moreover have "set seg0 \<subseteq> set cs" using IH r by simp
        ultimately show ?thesis using s by auto
      next
        assume "seg \<in> set segs"
        then have "set seg \<subseteq> set cs" using IH r by simp
        then show ?thesis using s by auto
      qed
    qed
  qed
qed

lemma count_no_brace: "\<forall>c \<in> set s. \<not> is_brace c \<Longrightarrow> count_list s CHR ''{'' = 0"
  by (induction s) (auto simp: is_brace_def)

lemma count_group: "is_group g \<Longrightarrow> count_list g CHR ''{'' = 1"
  by (auto simp: is_group_def count_no_brace)

lemma interior_group:
  "is_group g \<Longrightarrow> \<forall>c \<in> set (interior g). \<not> is_brace c"
  by (auto simp: is_group_def interior_def)

lemma py_index_mem: "py_index xs i = Inr x \<Longrightarrow> x \<in> set xs"
  by (auto simp: py_index_def Let_def split: if_splits)

lemma py_index_in_range:
  "0 \<le> i \<Longrightarrow> i < int (length xs) \<Longrightarrow> py_index xs i = Inr (xs ! nat i)"
  by (simp add: py_index_def)

text \<open>One iteration of the loop.\<close>

lemma iteration_decreases:
  assumes s: "search prompt = Some (pre, grp, post)"
    and p: "pick \<in> set (py_split ''|'' (interior grp))"
  shows "(\<forall>c \<in> set pick. \<not> is_brace c) \<and>
         count_list (replace_first prompt grp pick) CHR ''{'' + 1 = count_list prompt CHR ''{''"
proof -
  from s have eq: "prompt = pre @ grp @ post" and g: "is_group grp"
    using search_Some by blast+
  from p have "set pick \<subseteq> set (interior grp)" by (rule py_split_chars)
  with interior_group [OF g] have nb: "\<forall>c \<in> set pick. \<not> is_brace c" by blast
  have "replace_first prompt grp pick = pre @ pick @ post"
    using s by (rule replace_first_search)
  with eq nb g show ?thesis by (simp add: count_no_brace count_group)
qed

lemma wildcard_loop_terminates: "\<exists>r. wildcard_loop R rng prompt = Some r"
proof (induction "count_list prompt CHR ''{''" arbitrary: rng prompt rule: less_induct)
  case less
  show ?case
  proof (cases "search prompt")
    case None
    then show ?thesis by (subst wildcard_loop.simps) simp
  next
    case (Some t)
    obtain pre grp post where t: "t = (pre, grp, post)" by (cases t) auto
    let ?ops = "py_split ''|'' (interior grp)"
    obtain i rng' where ri: "randint R rng 0 (int (length ?ops) - 1) = (i, rng')"
      by (cases "randint R rng 0 (int (length ?ops) - 1)") auto
    show ?thesis
    proof (cases "py_index ?ops i")
      case (Inl e)
      with Some t ri show ?thesis
        by (subst wildcard_loop.simps) (simp add: py_split_nonempty)
    next
      case (Inr pick)
      then have "pick \<in> set ?ops" by (rule py_index_mem)
      with Some t have "count_list (replace_first prompt grp pick) CHR ''{'' < count_list prompt CHR ''{''"
        using iteration_decreases by fastforce
      then obtain r where "wildcard_loop R rng' (replace_first prompt grp pick) = Some r"
        using less by blast
      with Some t ri Inr show ?thesis
        by (subst wildcard_loop.simps) (simp add: py_split_nonempty)
    qed
  qed
qed

lemma randint_in_range:
  assumes "randint_ok R" and "ops \<noteq> []"
  shows "\<exists>pick \<in> set ops. py_index ops (fst (randint R rng 0 (int (length ops) - 1))) = Inr pick"
proof -
  let ?i = "fst (randint R rng 0 (int (length ops) - 1))"
  from assms(2) have "(0::int) \<le> int (length ops) - 1" by (cases ops) auto
  with assms(1) have "0 \<le> ?i" and "?i \<le> int (length ops) - 1"
    unfolding randint_ok_def by blast+
  then have "py_index ops ?i = Inr (ops ! nat ?i)" and "nat ?i < length ops"
    by (auto simp: py_index_in_range)
  then show ?thesis by auto
qed

lemma wildcard_loop_returns:
  assumes ok: "randint_ok R"
  shows "\<exists>out. wildcard_loop R rng prompt = Some (Inr out)"
proof (induction "count_list prompt CHR ''{''" arbitrary: rng prompt rule: less_induct)
  case less
  show ?case
  proof (cases "search prompt")
    case None
    then show ?thesis by (subst wildcard_loop.simps) simp
  next
    case (Some t)
    obtain pre grp post where t: "t = (pre, grp, post)" by (cases t) auto
    let ?ops = "py_split ''|'' (interior grp)"
    obtain i rng' where ri: "randint R rng 0 (int (length ?ops) - 1) = (i, rng')"
      by (cases "randint R rng 0 (int (length ?ops) - 1)") auto
    from randint_in_range [OF ok py_split_nonempty, of "''|''" "interior grp" rng] ri
    obtain pick where pick: "pick \<in> set ?ops" and idx: "py_index ?ops i = Inr pick"
      by auto
    from Some t pick
    have "count_list (replace_first prompt grp pick) CHR ''{'' < count_list prompt CHR ''{''"
      using iteration_decreases by fastforce
    then obtain out where "wildcard_loop R rng' (replace_first prompt grp pick) = Some (Inr out)"
      using less by blast
    with Some t ri idx show ?thesis
      by (subst wildcard_loop.simps) (simp add: py_split_nonempty)
  qed
qed

lemma wildcard_loop_no_group:
  "search prompt = None \<Longrightarrow> wildcard_loop R rng prompt = Some (Inr prompt)"
  by (subst wildcard_loop.simps) simp

lemma process_wildcards_valid:
  "process_wildcards R (PStr prompt) (PInt seed) w =
     (wildcard_loop R (seed_random R seed) prompt, w)"
  by (simp add: process_wildcards_def)

lemma sample_randint:
  "randint sample_random g a b =
     (a + int (((1103515245 * g + 12345) mod 2147483648) mod nat (b - a + 1)),
      (1103515245 * g + 12345) mod 2147483648)"
  by (simp add: sample_random_def Let_def)

lemma sample_random_ok: "randint_ok sample_random"
  unfolding randint_ok_def
proof (intro allI impI)
  fix g :: nat and a b :: int
  assume "a \<le> b"
  then have "0 < nat (b - a + 1)" by simp
  then have "((1103515245 * g + 12345) mod 2147483648) mod nat (b - a + 1) < nat (b - a + 1)"
    by (rule mod_less_divisor)
  then show "a \<le> fst (randint sample_random g a b) \<and> fst (randint sample_random g a b) \<le> b"
    by (simp add: sample_randint)
qed


lemma wildcard_loop_step:
  assumes "search prompt = Some (pre, grp, post)"
    and "randint R rng 0 (int (length (py_split ''|'' (interior grp))) - 1) = (i, rng')"
    and "py_index (py_split ''|'' (interior grp)) i = Inr pick"
  shows "wildcard_loop R rng prompt = wildcard_loop R rng' (replace_first prompt grp pick)"
  using assms by (subst wildcard_loop.simps) (simp add: py_split_nonempty)

lemma interior_nonempty: "is_group g \<Longrightarrow> interior g \<noteq> []"
  by (auto simp: is_group_def interior_def)

lemma process_wildcards_invalid:
  assumes "prompt = PNone \<or> \<not> isinstance_str prompt \<or> seed = PNone \<or> \<not> isinstance_int seed"
  shows "process_wildcards R prompt seed w = (Some (Inl TypeError), w)"
  using assms by (auto simp: process_wildcards_def)

lemma process_wildcards_valid_args:
  assumes ok: "randint_ok R"
    and v: "\<not> (prompt = PNone \<or> \<not> isinstance_str prompt \<or> seed = PNone \<or> \<not> isinstance_int seed)"
  shows "\<exists>out. process_wildcards R prompt seed w = (Some (Inr out), w)"
proof -
  from v have "process_wildcards R prompt seed w =
      (wildcard_loop R (seed_random R (int_of seed)) (str_of prompt), w)"
    by (simp add: process_wildcards_def)
  with wildcard_loop_returns [OF ok, of "seed_random R (int_of seed)" "str_of prompt"]
  show ?thesis by auto
qed

section \<open>Facts about slices and the window\<close>

lemma filter_upt_prefix:
  assumes "\<And>j. j < m \<Longrightarrow> P j \<longleftrightarrow> j < k" and "k \<le> m"
  shows "filter P [0 ..< m] = [0 ..< k]"
proof -
  have "[0 ..< m] = [0 ..< k] @ [k ..< m]"
    using assms(2) upt_add_eq_append [of 0 k "m - k"] by simp
  moreover have "filter P [0 ..< k] = [0 ..< k]"
    using assms by (intro filter_True) auto
  moreover have "filter P [k ..< m] = []"
    using assms by (intro filter_False) auto
  ultimately show ?thesis by simp
qed

lemma adjust_index_nat:
  "0 < step \<Longrightarrow> adjust_index (int t) (int n) step = int (min t n)"
  by (auto simp: adjust_index_def min_def)

lemma slice_count:
  fixes start step maxc n :: nat
  assumes "0 < step"
  defines "a \<equiv> adjust_index (int start) (int n) (int step)"
    and "b \<equiv> adjust_index (int (start + maxc * step)) (int n) (int step)"
  shows "\<exists>k. slice_length a b (int step) = int k \<and> k \<le> maxc \<and>
             (\<forall>j < maxc. start + j * step < n \<longleftrightarrow> j < k) \<and> (0 < k \<longrightarrow> a = int start)"
proof (cases "start < n \<and> 0 < maxc")
  have a': "a = int (min start n)"
    unfolding a_def using assms(1) by (intro adjust_index_nat) simp
  have b': "b = int (min (start + maxc * step) n)"
    unfolding b_def using assms(1) by (intro adjust_index_nat) simp
  case False
  then have "min (start + maxc * step) n \<le> min start n"
    by (cases "start < n") auto
  then have "\<not> a < b" unfolding a' b' by simp
  then have "slice_length a b (int step) = int 0" using assms(1) by (simp add: slice_length_def)
  moreover have "\<forall>j < maxc. \<not> start + j * step < n" using False by auto
  ultimately show ?thesis by auto
next
  case True
  define e where "e = min (start + maxc * step) n"
  have a': "a = int (min start n)"
    unfolding a_def using assms(1) by (intro adjust_index_nat) simp
  have b: "b = int e"
    unfolding b_def e_def using assms(1) by (intro adjust_index_nat) simp
  have a: "a = int start" using True a' by simp
  have lt: "start < e" using True assms(1) unfolding e_def by simp
  define k where "k = (e - start - 1) div step + 1"
  have "(b - a - 1) = int (e - start - 1)" using a b lt by simp
  then have "(b - a - 1) div int step = int ((e - start - 1) div step)"
    by (simp add: zdiv_int)
  then have sl: "slice_length a b (int step) = int k"
    using a b lt assms(1) by (simp add: slice_length_def k_def)
  have iff: "j < k \<longleftrightarrow> start + j * step < e" for j
  proof -
    have "j < k \<longleftrightarrow> j \<le> (e - start - 1) div step" unfolding k_def by auto
    also have "\<dots> \<longleftrightarrow> j * step \<le> e - start - 1"
      using assms(1) by (simp add: less_eq_div_iff_mult_less_eq)
    also have "\<dots> \<longleftrightarrow> start + j * step < e" using lt by auto
    finally show ?thesis .
  qed
  have "k \<le> maxc"
  proof (rule ccontr)
    assume "\<not> k \<le> maxc"
    then have "maxc < k" by simp
    then have "start + maxc * step < e" using iff by simp
    then show False unfolding e_def by simp
  qed
  moreover have "\<forall>j < maxc. start + j * step < n \<longleftrightarrow> j < k"
  proof (intro allI impI)
    fix j assume "j < maxc"
    then have "j * step < maxc * step" using assms(1) by simp
    then show "start + j * step < n \<longleftrightarrow> j < k" unfolding iff e_def by auto
  qed
  ultimately show ?thesis using sl a by auto
qed

lemma py_slice_window:
  "py_slice xs (int start) (int start + int maxc * (int skip + 1)) (int skip + 1) =
     Inr (window xs start skip maxc)"
proof -
  let ?step = "Suc skip"
  let ?a = "adjust_index (int start) (int (length xs)) (int ?step)"
  let ?b = "adjust_index (int (start + maxc * ?step)) (int (length xs)) (int ?step)"
  obtain k where sl: "slice_length ?a ?b (int ?step) = int k" and km: "k \<le> maxc"
    and iff: "\<forall>j < maxc. start + j * ?step < length xs \<longleftrightarrow> j < k"
    and a: "0 < k \<longrightarrow> ?a = int start"
    using slice_count [of ?step start "length xs" maxc] by auto
  have "filter (\<lambda>j. start + j * ?step < length xs) [0 ..< maxc] = [0 ..< k]"
    using iff km by (intro filter_upt_prefix) auto
  then have w: "window xs start skip maxc = map (\<lambda>j. xs ! (start + j * ?step)) [0 ..< k]"
    by (simp add: window_def filter_map comp_def)
  have "map (\<lambda>j. xs ! nat (?a + int j * int ?step)) [0 ..< k] =
        map (\<lambda>j. xs ! (start + j * ?step)) [0 ..< k]"
  proof (rule map_cong [OF refl])
    fix j assume "j \<in> set [0 ..< k]"
    then have "0 < k" by auto
    with a have "?a = int start" by simp
    then have "nat (?a + int j * int ?step) = start + j * ?step"
      by (simp add: nat_add_distrib nat_mult_distrib)
    then show "xs ! nat (?a + int j * int ?step) = xs ! (start + j * ?step)" by simp
  qed
  moreover have "int start + int maxc * (int skip + 1) = int (start + maxc * ?step)"
    and "int skip + 1 = int ?step"
    by (simp_all add: algebra_simps)
  ultimately show ?thesis
    using w sl by (simp only: py_slice_def Let_def) simp
qed

lemma text_of_codepoints: "text_of (codepoints s) = s"
  by (simp add: text_of_def codepoints_def comp_def)

lemma prefix_map_inj: "inj f \<Longrightarrow> prefix (map f xs) (map f ys) \<longleftrightarrow> prefix xs ys"
  by (metis inj_map_eq_map map_append prefix_def prefix_map_rightE)

lemma py_split_map:
  assumes "inj f"
  shows "py_split (map f sep) (map f s) = map (map f) (py_split sep s)"
proof (induction sep s rule: py_split.induct)
  case (1 sep s)
  show ?case
  proof (cases "s = []")
    case True
    then show ?thesis by (simp add: py_split_Nil)
  next
    case ne: False
    show ?thesis
    proof (cases "sep \<noteq> [] \<and> prefix sep s")
      case True
      then have p: "map f sep \<noteq> []" "prefix (map f sep) (map f s)"
        using assms by (simp_all add: prefix_map_inj)
      from ne have ne': "map f s \<noteq> []" by simp
      have "py_split (map f sep) (map f s) =
              [] # py_split (map f sep) (drop (length (map f sep)) (map f s))"
        using ne' p by (rule py_split_at_sep)
      also have "drop (length (map f sep)) (map f s) = map f (drop (length sep) s)"
        by (simp add: drop_map)
      also have "py_split (map f sep) (map f (drop (length sep) s)) =
              map (map f) (py_split sep (drop (length sep) s))"
        using "1.IH"(1) ne True by simp
      finally show ?thesis using ne True by (simp add: py_split_at_sep)
    next
      case False
      from ne obtain c cs where s: "s = c # cs" by (cases s) auto
      from False have np: "\<not> (map f sep \<noteq> [] \<and> prefix (map f sep) (map f (c # cs)))"
        using assms s prefix_map_inj [OF assms, of sep "c # cs"] by simp
      have IH: "py_split (map f sep) (map f cs) = map (map f) (py_split sep cs)"
        using "1.IH"(2) ne False s by simp
      have "py_split (map f sep) (f c # map f cs) =
              (f c # hd (py_split (map f sep) (map f cs))) # tl (py_split (map f sep) (map f cs))"
        using np by (simp add: py_split_char)
      moreover have "py_split sep (c # cs) = (c # hd (py_split sep cs)) # tl (py_split sep cs)"
        using False s by (simp add: py_split_char)
      ultimately show ?thesis
        using s IH py_split_nonempty [of sep cs] by (simp add: hd_map map_tl)
    qed
  qed
qed

lemma split_codepoints:
  "map text_of (py_split (codepoints sep) (codepoints s)) = py_split sep s"
proof -
  have "inj (of_char :: char \<Rightarrow> nat)" by (simp add: inj_def)
  then have "py_split (codepoints sep) (codepoints s) = map codepoints (py_split sep s)"
    unfolding codepoints_def by (rule py_split_map)
  then show ?thesis by (simp add: comp_def text_of_codepoints)
qed

lemma segments_are_text:
  assumes "seg \<in> set (py_split d (codepoints text))"
  shows "codepoints (text_of seg) = seg"
proof -
  from assms have "set seg \<subseteq> set (codepoints text)" by (rule py_split_chars)
  then have "\<forall>cp \<in> set seg. of_char (char_of cp :: char) = cp"
    by (auto simp: codepoints_def)
  then show ?thesis by (simp add: codepoints_def text_of_def map_idI)
qed

lemma run_decoded:
  assumes "delimiter \<noteq> []" and "decode delimiter = Inr d" and "d \<noteq> []"
  shows "run decode text delimiter (int start) (int skip) (int maxc) =
           Inr (window (filter (\<lambda>seg. strip seg \<noteq> [])
                          (map text_of (py_split d (codepoints text)))) start skip maxc)"
  using assms by (simp add: run_def str_split_def py_slice_window)

lemma window_length: "length (window segs start skip maxc) \<le> maxc"
proof -
  have "length (filter (\<lambda>i. i < length segs) (map (\<lambda>j. start + j * (skip + 1)) [0 ..< maxc]))
          \<le> length (map (\<lambda>j. start + j * (skip + 1)) [0 ..< maxc])"
    by (rule length_filter_le)
  then show ?thesis by (simp add: window_def)
qed

lemma window_beyond: "length segs \<le> start \<Longrightarrow> window segs start skip maxc = []"
  by (auto simp: window_def filter_empty_conv)

lemma decode_plain_comma: "unicode_escape_decode names '','' = Inr (codepoints '','')"
  by (simp add: unicode_escape_decode_def utf8_encode_def decode_escapes.simps codepoints_def)

lemma decode_lone_backslash: "unicode_escape_decode names [CHR 0x5C] = Inl UnicodeDecodeError"
  by (simp add: unicode_escape_decode_def utf8_encode_def decode_escapes.simps escape_at_def)

lemma decode_backslash_newline: "unicode_escape_decode names [CHR 0x5C, CHR 0x0A] = Inr []"
  by (simp add: unicode_escape_decode_def utf8_encode_def decode_escapes.simps escape_at_def)

lemma run_lone_backslash:
  "run (unicode_escape_decode names) text [CHR 0x5C] start skip maxc = Inl UnicodeDecodeError"
  by (simp add: run_def decode_lone_backslash)

lemma run_backslash_newline:
  "run (unicode_escape_decode names) text [CHR 0x5C, CHR 0x0A] start skip maxc = Inl ValueError"
  by (simp add: run_def decode_backslash_newline str_split_def)

lemma window_single:
  "window [x] start skip (Suc m) = (if start = 0 then [x] else [])"
proof (cases "start = 0")
  case True
  have f: "filter (\<lambda>j. start + j * (skip + 1) < length [x]) [0 ..< Suc m] = [0 ..< 1]"
    using True by (intro filter_upt_prefix) auto
  have "window [x] start skip (Suc m) =
          map (\<lambda>j. [x] ! (start + j * (skip + 1)))
            (filter (\<lambda>j. start + j * (skip + 1) < length [x]) [0 ..< Suc m])"
    by (simp only: window_def filter_map comp_def map_map)
  also have "\<dots> = [x]" by (simp only: f) (simp add: True)
  finally show ?thesis using True by simp
next
  case False
  then show ?thesis by (simp add: window_beyond)
qed

lemma run_no_delimiter:
  "run decode text [] (int start) (int skip) (int (Suc m)) =
     Inr (if start = 0 then [strip text] else [])"
proof -
  have "run decode text [] (int start) (int skip) (int (Suc m)) =
          py_slice [strip text] (int start) (int start + int (Suc m) * (int skip + 1)) (int skip + 1)"
    by (simp add: run_def)
  also have "\<dots> = Inr (window [strip text] start skip (Suc m))"
    by (rule py_slice_window)
  finally show ?thesis by (simp only: window_single)
qed

section \<open>Facts about the metadata\<close>

lemma update_twice: "AList.update k v (AList.update k v' al) = AList.update k v al"
  by (induction al) auto

lemma dict_or_absent_cases:
  "dict_or_absent v \<longleftrightarrow> v = None \<or> (\<exists>d. v = Some (PDict d))"
  by (auto simp: dict_or_absent_def split: option.splits pyval.splits)

lemma not_dict: "(\<nexists>d. v = PDict d) \<Longrightarrow> isinstance_dict v = False"
  by (cases v) auto

lemma if_dict_skip:
  "(\<nexists>d. v = PDict d) \<Longrightarrow> (if v \<noteq> PNone \<and> isinstance_dict v then X else Y) = Y"
  by (cases v) auto

lemma save_metadata_no_id:
  "save_metadata None png prompt = Inr (png, [Note_hidden_missing])"
  by (simp add: save_metadata_def)

lemma save_metadata_no_png:
  assumes "\<nexists>info. png = PDict info"
  shows "save_metadata (Some key) png prompt = Inr (png, [Note_hidden_missing])"
  by (simp add: save_metadata_def if_dict_skip [OF assms])

lemma save_metadata_no_workflow:
  assumes "\<nexists>workflow. map_of info ''workflow'' = Some (PDict workflow)"
  shows "save_metadata (Some key) (PDict info) prompt = Inr (PDict info, [Note_workflow_missing])"
proof -
  have "\<nexists>d. (case map_of info ''workflow'' of None \<Rightarrow> PNone | Some v \<Rightarrow> v) = PDict d"
    using assms by (auto split: option.splits)
  then show ?thesis
    by (simp add: save_metadata_def bind_err_def if_dict_skip)
qed

lemma save_metadata_extra_not_dict:
  assumes "map_of info ''workflow'' = Some (PDict workflow)"
    and "map_of workflow ''extra'' = Some x" and "\<nexists>extra. x = PDict extra"
  shows "save_metadata (Some key) (PDict info) prompt = Inr (PDict info, [Warn_extra_not_dict])"
  using assms(1,2) not_dict [OF assms(3)]
  by (simp add: save_metadata_def bind_err_def update_triv)

lemma save_metadata_namespace_not_dict:
  assumes "map_of info ''workflow'' = Some (PDict workflow)"
    and "map_of workflow ''extra'' = Some (PDict extra)"
    and "map_of extra ''stable-wildcards'' = Some y" and "\<nexists>ns. y = PDict ns"
  shows "save_metadata (Some key) (PDict info) prompt =
           Inr (PDict info, [Warn_namespace_not_dict])"
  using assms(1,2,3) not_dict [OF assms(4)]
  by (simp add: save_metadata_def bind_err_def update_triv)

lemma save_metadata_write:
  assumes "map_of info ''workflow'' = Some (PDict workflow)"
    and "dict_or_absent (map_of workflow ''extra'')"
    and "dict_or_absent (map_of (stored_dict workflow ''extra'') ''stable-wildcards'')"
  shows "save_metadata (Some key) (PDict info) prompt =
           Inr (PDict (AList.update ''workflow''
                  (PDict (AList.update ''extra''
                     (PDict (AList.update ''stable-wildcards''
                        (PDict (AList.update key (PStr prompt)
                           (stored_dict (stored_dict workflow ''extra'') ''stable-wildcards'')))
                        (stored_dict workflow ''extra'')))
                     workflow))
                  info), [])"
proof -
  from assms(2) consider "map_of workflow ''extra'' = None"
    | extra where "map_of workflow ''extra'' = Some (PDict extra)"
    by (auto simp: dict_or_absent_cases)
  then show ?thesis
  proof cases
    case 1
    with assms(1) show ?thesis
      by (simp add: save_metadata_def bind_err_def stored_dict_def update_conv' update_twice)
  next
    case (2 extra)
    then have sd: "stored_dict workflow ''extra'' = extra" by (simp add: stored_dict_def)
    from assms(3) sd consider "map_of extra ''stable-wildcards'' = None"
      | ns where "map_of extra ''stable-wildcards'' = Some (PDict ns)"
      by (auto simp: dict_or_absent_cases)
    then show ?thesis
    proof cases
      case 1
      with assms(1) 2 sd show ?thesis
        by (simp add: save_metadata_def bind_err_def stored_dict_def update_conv' update_twice)
    next
      case (2 ns)
      with assms(1) \<open>map_of workflow ''extra'' = Some (PDict extra)\<close> sd show ?thesis
        by (simp add: save_metadata_def bind_err_def stored_dict_def update_conv' update_twice)
    qed
  qed
qed

lemma save_metadata_skipped:
  assumes "\<not> metadata_writable uid png"
  shows "\<exists>line. save_metadata uid png prompt = Inr (png, [line])"
proof (cases uid)
  case None
  then show ?thesis by (simp add: save_metadata_no_id)
next
  case (Some key)
  show ?thesis
  proof (cases "\<exists>info. png = PDict info")
    case False
    with Some show ?thesis by (simp add: save_metadata_no_png)
  next
    case True
    then obtain info where png: "png = PDict info" by blast
    show ?thesis
    proof (cases "\<exists>workflow. map_of info ''workflow'' = Some (PDict workflow)")
      case False
      with Some png show ?thesis by (simp add: save_metadata_no_workflow)
    next
      case True
      then obtain workflow where wf: "map_of info ''workflow'' = Some (PDict workflow)" by blast
      from assms Some png wf
      have nw: "\<not> (dict_or_absent (map_of workflow ''extra'') \<and>
                  dict_or_absent (map_of (stored_dict workflow ''extra'') ''stable-wildcards''))"
        by (simp add: metadata_writable_def)
      show ?thesis
      proof (cases "dict_or_absent (map_of workflow ''extra'')")
        case False
        then obtain x where "map_of workflow ''extra'' = Some x" and "\<nexists>extra. x = PDict extra"
          by (auto simp: dict_or_absent_cases)
        with Some png wf show ?thesis by (simp add: save_metadata_extra_not_dict)
      next
        case True
        with nw have n2: "\<not> dict_or_absent (map_of (stored_dict workflow ''extra'') ''stable-wildcards'')"
          by simp
        then have "stored_dict workflow ''extra'' \<noteq> []"
          by (auto simp: dict_or_absent_def)
        then obtain extra where ex: "map_of workflow ''extra'' = Some (PDict extra)"
          by (auto simp: stored_dict_def split: option.splits pyval.splits)
        then have "stored_dict workflow ''extra'' = extra" by (simp add: stored_dict_def)
        with n2 obtain y where "map_of extra ''stable-wildcards'' = Some y" and "\<nexists>ns. y = PDict ns"
          by (auto simp: dict_or_absent_cases)
        with Some png wf ex show ?thesis by (simp add: save_metadata_namespace_not_dict)
      qed
    qed
  qed
qed

lemma metadata_writableD:
  assumes "metadata_writable uid png"
  shows "\<exists>key info workflow.
           uid = Some key \<and> png = PDict info \<and> map_of info ''workflow'' = Some (PDict workflow) \<and>
           dict_or_absent (map_of workflow ''extra'') \<and>
           dict_or_absent (map_of (stored_dict workflow ''extra'') ''stable-wildcards'')"
proof -
  from assms obtain key where k: "uid = Some key"
    by (auto simp: metadata_writable_def)
  from assms obtain info where i: "png = PDict info"
    by (cases png) (simp_all add: metadata_writable_def)
  from assms i obtain v where v: "map_of info ''workflow'' = Some v"
    by (cases "map_of info ''workflow''") (simp_all add: metadata_writable_def)
  from assms i v obtain workflow where w: "v = PDict workflow"
    by (cases v) (simp_all add: metadata_writable_def)
  from assms i v w have "dict_or_absent (map_of workflow ''extra'')"
    and "dict_or_absent (map_of (stored_dict workflow ''extra'') ''stable-wildcards'')"
    by (simp_all add: metadata_writable_def)
  with k i v w show ?thesis by simp
qed

lemma save_metadata_total: "\<exists>png' printed. save_metadata uid png prompt = Inr (png', printed)"
proof (cases "metadata_writable uid png")
  case True
  then show ?thesis using metadata_writableD save_metadata_write by blast
next
  case False
  then show ?thesis using save_metadata_skipped by blast
qed

lemma execute_valid:
  assumes "process_wildcards R (PStr prompt) (PInt seed) w = (Some (Inr out), w)"
    and "save_metadata (unique_id kw) (png_info kw) out = Inr (png', printed)"
  shows "execute R (PStr prompt) (PInt seed) kw w =
           (Some (Inr out), png', w\<lparr>console := console w @ Result_line (PInt seed) out # printed\<rparr>)"
  using assms by (simp add: execute_def Let_def)

lemma process_wildcards_returns:
  assumes "randint_ok R"
  shows "\<exists>out. \<forall>w. process_wildcards R (PStr prompt) (PInt seed) w = (Some (Inr out), w)"
proof -
  obtain out where "wildcard_loop R (seed_random R seed) prompt = Some (Inr out)"
    using wildcard_loop_returns [OF assms] by blast
  then show ?thesis by (auto simp: process_wildcards_valid)
qed

section \<open>The claims about process_wildcards\<close>

text \<open>
  C1. For every string prompt and every integer seed, \<open>process_wildcards\<close> is
  deterministic: the generator is built from the seed alone, so whatever the state of the
  interpreter (the console, the shared generator of the module \<^verbatim>\<open>random\<close>), a call with
  the same prompt and seed has the same outcome \<open>r\<close> and leaves that state as it was; with
  a generator that keeps the promise of \<^verbatim>\<open>randint\<close> the outcome is a returned string.
\<close>

theorem process_wildcards_deterministic:
  "\<exists>r. (\<forall>w. process_wildcards R (PStr prompt) (PInt seed) w = (Some r, w)) \<and>
        (randint_ok R \<longrightarrow> (\<exists>out. r = Inr out))"
proof -
  obtain r where r: "wildcard_loop R (seed_random R seed) prompt = Some r"
    using wildcard_loop_terminates [of R "seed_random R seed" prompt] by auto
  have "randint_ok R \<longrightarrow> (\<exists>out. r = Inr out)"
    using wildcard_loop_returns [of R "seed_random R seed" prompt] r by auto
  with r show ?thesis by (auto simp: process_wildcards_valid)
qed

theorem process_wildcards_deterministic_witness:
  "\<exists>r. (\<forall>w. process_wildcards sample_random (PStr ''{red|green} {cat|dog}'') (PInt 42) w = (Some r, w))
      \<and> (\<exists>out. r = Inr out)"
  using process_wildcards_deterministic [of sample_random "''{red|green} {cat|dog}''" 42]
    sample_random_ok by blast

text \<open>
  C2, as amended. For every string prompt and every integer seed the loop of
  \<open>process_wildcards\<close> terminates: each iteration replaces the matched group by an option
  that has no brace in it, so the number of opening braces in the string goes down by
  exactly one per iteration. (The number of groups need not go down.)
\<close>

theorem loop_terminates_by_braces:
  "(\<exists>r. \<forall>w. process_wildcards R (PStr prompt) (PInt seed) w = (Some r, w)) \<and>
   (\<exists>r. wildcard_loop R rng prompt = Some r) \<and>
   (\<forall>pre grp post pick.
      search prompt = Some (pre, grp, post) \<longrightarrow>
      pick \<in> set (py_split ''|'' (interior grp)) \<longrightarrow>
        (\<forall>c \<in> set pick. \<not> is_brace c) \<and>
        count_list (replace_first prompt grp pick) CHR ''{'' + 1 = count_list prompt CHR ''{'')"
proof (intro conjI)
  obtain r where "wildcard_loop R (seed_random R seed) prompt = Some r"
    using wildcard_loop_terminates [of R "seed_random R seed" prompt] by auto
  then show "\<exists>r. \<forall>w. process_wildcards R (PStr prompt) (PInt seed) w = (Some r, w)"
    by (auto simp: process_wildcards_valid)
next
  show "\<exists>r. wildcard_loop R rng prompt = Some r"
    by (rule wildcard_loop_terminates)
next
  show "\<forall>pre grp post pick.
      search prompt = Some (pre, grp, post) \<longrightarrow>
      pick \<in> set (py_split ''|'' (interior grp)) \<longrightarrow>
        (\<forall>c \<in> set pick. \<not> is_brace c) \<and>
        count_list (replace_first prompt grp pick) CHR ''{'' + 1 = count_list prompt CHR ''{''"
    using iteration_decreases by blast
qed

theorem loop_terminates_by_braces_witness:
  "(\<exists>r. \<forall>w. process_wildcards sample_random (PStr ''{{a|b}}'') (PInt 7) w = (Some r, w)) \<and>
   (\<exists>r. wildcard_loop sample_random 7 ''{{a|b}}'' = Some r) \<and>
   search ''{{a|b}}'' = Some (''{'', ''{a|b}'', ''}'') \<and>
   ''b'' \<in> set (py_split ''|'' (interior ''{a|b}'')) \<and>
   \<not> is_brace CHR ''b'' \<and>
   count_list (replace_first ''{{a|b}}'' ''{a|b}'' ''b'') CHR ''{'' + 1 = count_list ''{{a|b}}'' CHR ''{''"
proof -
  have s: "search ''{{a|b}}'' = Some (''{'', ''{a|b}'', ''}'')"
    by (simp add: is_brace_def)
  have p: "''b'' \<in> set (py_split ''|'' (interior ''{a|b}''))"
    by (simp add: interior_def py_split_Nil py_split_at_sep py_split_char)
  note t = loop_terminates_by_braces [of sample_random "''{{a|b}}''" 7 7]
  from t have t1: "\<exists>r. \<forall>w. process_wildcards sample_random (PStr ''{{a|b}}'') (PInt 7) w = (Some r, w)"
    by (rule conjunct1)
  from t have t2: "\<exists>r. wildcard_loop sample_random 7 ''{{a|b}}'' = Some r"
    by (rule conjunct1 [OF conjunct2])
  from t have "(\<forall>c \<in> set ''b''. \<not> is_brace c) \<and>
      count_list (replace_first ''{{a|b}}'' ''{a|b}'' ''b'') CHR ''{'' + 1 = count_list ''{{a|b}}'' CHR ''{''"
    using s p by blast
  then have t3: "\<not> is_brace CHR ''b''"
    and t4: "count_list (replace_first ''{{a|b}}'' ''{a|b}'' ''b'') CHR ''{'' + 1 = count_list ''{{a|b}}'' CHR ''{''"
    by simp_all
  from t1 t2 s p t3 t4 show ?thesis by (intro conjI)
qed

text \<open>
  C2 as stated fails: in \<^verbatim>\<open>{{a}}\<close> the only group is \<^verbatim>\<open>{a}\<close>, its only option is
  \<^verbatim>\<open>a\<close>, and the iteration leaves \<^verbatim>\<open>{a}\<close>, which again has one group.
\<close>

theorem group_count_not_decreasing:
  "search ''{{a}}'' = Some (''{'', ''{a}'', ''}'') \<and>
   py_split ''|'' (interior ''{a}'') = [''a''] \<and>
   replace_first ''{{a}}'' ''{a}'' ''a'' = ''{a}'' \<and>
   count_groups ''{{a}}'' = 1 \<and>
   count_groups (replace_first ''{{a}}'' ''{a}'' ''a'') = 1"
proof -
  have s: "search ''{{a}}'' = Some (''{'', ''{a}'', ''}'')"
    by (simp add: is_brace_def)
  have p: "py_split ''|'' (interior ''{a}'') = [''a'']"
    by (simp add: interior_def py_split_Nil py_split_at_sep py_split_char)
  have r: "replace_first ''{{a}}'' ''{a}'' ''a'' = ''{a}''"
    by simp
  have c1: "count_groups ''{{a}}'' = 1"
    by (simp add: is_brace_def)
  have c2: "count_groups ''{a}'' = 1"
    by (simp add: is_brace_def)
  from s p r c1 c2 show ?thesis by simp
qed

text \<open>
  C5. \<open>process_wildcards\<close> raises if and only if the prompt is \<^verbatim>\<open>None\<close> or no string, or
  the seed is \<^verbatim>\<open>None\<close> or no integer (an instance of \<^verbatim>\<open>int\<close>, which in Python a
  \<^verbatim>\<open>bool\<close> is too); the error is a TypeError, no string is returned with it and the
  interpreter's state is as before. \<^verbatim>\<open>resolve(None, 0)\<close>, \<^verbatim>\<open>resolve("x", None)\<close> and
  \<^verbatim>\<open>resolve("x", "0")\<close> raise.
\<close>

theorem invalid_arguments_raise:
  assumes "randint_ok R"
  shows "((\<exists>e. fst (process_wildcards R prompt seed w) = Some (Inl e)) \<longleftrightarrow>
            (prompt = PNone \<or> \<not> isinstance_str prompt \<or> seed = PNone \<or> \<not> isinstance_int seed)) \<and>
         ((prompt = PNone \<or> \<not> isinstance_str prompt \<or> seed = PNone \<or> \<not> isinstance_int seed) \<longrightarrow>
            (process_wildcards R prompt seed w = (Some (Inl TypeError), w))) \<and>
         (process_wildcards R PNone (PInt 0) w = (Some (Inl TypeError), w)) \<and>
         (process_wildcards R (PStr ''x'') PNone w = (Some (Inl TypeError), w)) \<and>
         (process_wildcards R (PStr ''x'') (PStr ''0'') w = (Some (Inl TypeError), w))"
proof (intro conjI impI)
  show "(\<exists>e. fst (process_wildcards R prompt seed w) = Some (Inl e)) \<longleftrightarrow>
            (prompt = PNone \<or> \<not> isinstance_str prompt \<or> seed = PNone \<or> \<not> isinstance_int seed)"
  proof (cases "prompt = PNone \<or> \<not> isinstance_str prompt \<or> seed = PNone \<or> \<not> isinstance_int seed")
    case True
    from process_wildcards_invalid [OF True, of R w] True show ?thesis by auto
  next
    case False
    from process_wildcards_valid_args [OF assms False, of w] False show ?thesis by auto
  qed
next
  assume "prompt = PNone \<or> \<not> isinstance_str prompt \<or> seed = PNone \<or> \<not> isinstance_int seed"
  then show "process_wildcards R prompt seed w = (Some (Inl TypeError), w)"
    by (rule process_wildcards_invalid)
next
  show "process_wildcards R PNone (PInt 0) w = (Some (Inl TypeError), w)"
    by (simp add: process_wildcards_def)
next
  show "process_wildcards R (PStr ''x'') PNone w = (Some (Inl TypeError), w)"
    by (simp add: process_wildcards_def)
next
  show "process_wildcards R (PStr ''x'') (PStr ''0'') w = (Some (Inl TypeError), w)"
    by (simp add: process_wildcards_def)
qed

theorem invalid_arguments_raise_witness:
  "(\<exists>e. fst (process_wildcards sample_random (PStr ''x'') (PFloat 0) \<lparr>console = [], shared_random = 9\<rparr>)
        = Some (Inl e)) \<and>
   (process_wildcards sample_random (PStr ''x'') (PFloat 0) \<lparr>console = [], shared_random = 9\<rparr>
        = (Some (Inl TypeError), \<lparr>console = [], shared_random = 9\<rparr>)) \<and>
   (\<nexists>e. fst (process_wildcards sample_random (PStr ''{x}'') (PBool True) \<lparr>console = [], shared_random = 9\<rparr>)
        = Some (Inl e))"
proof -
  let ?w = "\<lparr>console = [], shared_random = 9::nat\<rparr>"
  note t1 = invalid_arguments_raise [OF sample_random_ok, of "PStr ''x''" "PFloat 0" ?w]
  note t2 = invalid_arguments_raise [OF sample_random_ok, of "PStr ''{x}''" "PBool True" ?w]
  have a: "\<exists>e. fst (process_wildcards sample_random (PStr ''x'') (PFloat 0) ?w) = Some (Inl e)"
    using conjunct1 [OF t1] by simp
  have b: "process_wildcards sample_random (PStr ''x'') (PFloat 0) ?w
        = (Some (Inl TypeError), ?w)"
    using conjunct1 [OF conjunct2 [OF t1]] by simp
  have c: "\<nexists>e. fst (process_wildcards sample_random (PStr ''{x}'') (PBool True) ?w) = Some (Inl e)"
    using conjunct1 [OF t2] by simp
  from a b c show ?thesis by (intro conjI)
qed

text \<open>
  C6. For every string prompt with no substring that matches \<^verbatim>\<open>{[^{}]+}\<close> and every
  integer seed, \<open>process_wildcards\<close> returns the prompt unchanged.
\<close>

theorem no_group_unchanged:
  "\<not> has_group prompt \<Longrightarrow>
   process_wildcards R (PStr prompt) (PInt seed) w = (Some (Inr prompt), w)"
  by (simp add: process_wildcards_valid wildcard_loop_no_group search_iff)

theorem no_group_unchanged_witness:
  "\<not> has_group ''a } plain {} prompt {'' \<and>
   process_wildcards sample_random (PStr ''a } plain {} prompt {'') (PInt 5)
       \<lparr>console = [], shared_random = 0\<rparr>
     = (Some (Inr ''a } plain {} prompt {''), \<lparr>console = [], shared_random = 0\<rparr>)"
proof -
  have "search ''a } plain {} prompt {'' = None"
    by (simp add: is_brace_def)
  then have n: "\<not> has_group ''a } plain {} prompt {''"
    using search_iff by blast
  from n no_group_unchanged [OF n, of sample_random 5 "\<lparr>console = [], shared_random = 0\<rparr>"]
  show ?thesis by (intro conjI)
qed

text \<open>
  C7. \<^verbatim>\<open>process_wildcards("a {x|y} b", 0)\<close> returns \<^verbatim>\<open>"a x b"\<close> or \<^verbatim>\<open>"a y b"\<close> and
  nothing else, and every call with that prompt and seed 0 returns the same one of the two.
\<close>

theorem resolve_example:
  assumes "randint_ok R"
  shows "\<exists>out. (out = ''a x b'' \<or> out = ''a y b'') \<and>
           (\<forall>w. process_wildcards R (PStr ''a {x|y} b'') (PInt 0) w = (Some (Inr out), w))"
proof -
  let ?g = "seed_random R 0"
  have s: "search ''a {x|y} b'' = Some (''a '', ''{x|y}'', '' b'')"
    by (simp add: is_brace_def)
  have p: "py_split ''|'' (interior ''{x|y}'') = [''x'', ''y'']"
    by (simp add: interior_def py_split_Nil py_split_at_sep py_split_char)
  obtain i g' where ri: "randint R ?g 0 1 = (i, g')" by (cases "randint R ?g 0 1") auto
  with assms have "0 \<le> i \<and> i \<le> 1" unfolding randint_ok_def
    by (metis fst_conv zero_le_one)
  then have i: "i = 0 \<or> i = 1" by arith
  from ri p have ri': "randint R ?g 0 (int (length (py_split ''|'' (interior ''{x|y}''))) - 1) = (i, g')"
    by simp
  have n: "search ''a x b'' = None" "search ''a y b'' = None"
    by (simp_all add: is_brace_def)
  from i show ?thesis
  proof
    assume "i = 0"
    then have "py_index (py_split ''|'' (interior ''{x|y}'')) i = Inr ''x''"
      by (simp add: p py_index_def)
    from wildcard_loop_step [OF s ri' this]
    have "wildcard_loop R ?g ''a {x|y} b'' = Some (Inr ''a x b'')"
      by (simp add: wildcard_loop_no_group [OF n(1)])
    then show ?thesis by (simp add: process_wildcards_valid)
  next
    assume "i = 1"
    then have "py_index (py_split ''|'' (interior ''{x|y}'')) i = Inr ''y''"
      by (simp add: p py_index_def)
    from wildcard_loop_step [OF s ri' this]
    have "wildcard_loop R ?g ''a {x|y} b'' = Some (Inr ''a y b'')"
      by (simp add: wildcard_loop_no_group [OF n(2)])
    then show ?thesis by (simp add: process_wildcards_valid)
  qed
qed

theorem resolve_example_witness:
  "\<exists>out. (out = ''a x b'' \<or> out = ''a y b'') \<and>
     (\<forall>w. process_wildcards sample_random (PStr ''a {x|y} b'') (PInt 0) w = (Some (Inr out), w))"
  using resolve_example [OF sample_random_ok] .

text \<open>
  C9. The pattern does not match \<^verbatim>\<open>{}\<close>. In every iteration of the loop, the interior of
  the matched group is not empty and splitting it on \<^verbatim>\<open>|\<close> gives at least one option, so
  the branch for an empty list of options is never taken; the index drawn from the generator is within the list, so the
  choice of the option never raises, and the loop returns a string.
\<close>

theorem options_never_empty:
  assumes "search prompt = Some (pre, grp, post)"
  shows "search ''{}'' = None \<and>
         interior grp \<noteq> [] \<and>
         py_split ''|'' (interior grp) \<noteq> [] \<and>
         (randint_ok R \<longrightarrow>
            (\<exists>pick \<in> set (py_split ''|'' (interior grp)).
               py_index (py_split ''|'' (interior grp))
                 (fst (randint R rng 0 (int (length (py_split ''|'' (interior grp))) - 1)))
               = Inr pick) \<and>
            (\<exists>out. wildcard_loop R rng prompt = Some (Inr out)))"
proof (intro conjI impI)
  show "search ''{}'' = None" by (simp add: is_brace_def)
next
  from assms have "is_group grp" using search_Some by blast
  then show "interior grp \<noteq> []" by (rule interior_nonempty)
next
  show "py_split ''|'' (interior grp) \<noteq> []" by (rule py_split_nonempty)
next
  assume "randint_ok R"
  then show "\<exists>pick \<in> set (py_split ''|'' (interior grp)).
               py_index (py_split ''|'' (interior grp))
                 (fst (randint R rng 0 (int (length (py_split ''|'' (interior grp))) - 1)))
               = Inr pick"
    using py_split_nonempty by (rule randint_in_range)
next
  assume "randint_ok R"
  then show "\<exists>out. wildcard_loop R rng prompt = Some (Inr out)"
    by (rule wildcard_loop_returns)
qed

theorem options_never_empty_witness:
  "search ''pick {one|two|three}!'' = Some (''pick '', ''{one|two|three}'', ''!'') \<and>
   interior ''{one|two|three}'' \<noteq> [] \<and>
   py_split ''|'' (interior ''{one|two|three}'') \<noteq> [] \<and>
   (\<exists>pick \<in> set (py_split ''|'' (interior ''{one|two|three}'')).
      py_index (py_split ''|'' (interior ''{one|two|three}''))
        (fst (randint sample_random 3 0
           (int (length (py_split ''|'' (interior ''{one|two|three}''))) - 1)))
      = Inr pick) \<and>
   (\<exists>out. wildcard_loop sample_random 3 ''pick {one|two|three}!'' = Some (Inr out))"
proof -
  have s: "search ''pick {one|two|three}!'' = Some (''pick '', ''{one|two|three}'', ''!'')"
    by (simp add: is_brace_def)
  note t = conjunct2 [OF options_never_empty [OF s, of sample_random 3]]
  from t have a: "interior ''{one|two|three}'' \<noteq> []" by (rule conjunct1)
  from t have b: "py_split ''|'' (interior ''{one|two|three}'') \<noteq> []"
    by (rule conjunct1 [OF conjunct2])
  from t have c: "(\<exists>pick \<in> set (py_split ''|'' (interior ''{one|two|three}'')).
      py_index (py_split ''|'' (interior ''{one|two|three}''))
        (fst (randint sample_random 3 0
           (int (length (py_split ''|'' (interior ''{one|two|three}''))) - 1)))
      = Inr pick) \<and>
   (\<exists>out. wildcard_loop sample_random 3 ''pick {one|two|three}!'' = Some (Inr out))"
    using sample_random_ok by (rule mp [OF conjunct2 [OF conjunct2]])
  from c have c1: "\<exists>pick \<in> set (py_split ''|'' (interior ''{one|two|three}'')).
      py_index (py_split ''|'' (interior ''{one|two|three}''))
        (fst (randint sample_random 3 0
           (int (length (py_split ''|'' (interior ''{one|two|three}''))) - 1)))
      = Inr pick"
    by (rule conjunct1)
  from c have c2: "\<exists>out. wildcard_loop sample_random 3 ''pick {one|two|three}!'' = Some (Inr out)"
    by (rule conjunct2)
  from s a b c1 c2 show ?thesis by (intro conjI)
qed

section \<open>The claims about run\<close>

text \<open>
  C3, as amended. For every text and every delimiter that is not empty and whose escape
  decoding succeeds with a separator \<open>d\<close> that is not empty, whatever the decoder,
  \<open>run\<close> splits the text on \<open>d\<close>, drops the segments whose trimmed form is empty (the
  others stay untrimmed and in their order) and returns the elements at the indices
  \<open>start_index\<close>, \<open>start_index + (skip_every + 1)\<close>, ... of what is left, at most
  \<open>max_count\<close> of them, for window parameters that are not negative; a \<open>start_index\<close>
  beyond the end gives the empty list and no error. Where the separator is made of 8-bit
  characters, the segments are those of the split of the text as a string. The two
  examples of the specification hold with Python's codec, whatever the table of names.
\<close>

theorem run_window:
  assumes "delimiter \<noteq> []" and "decode delimiter = Inr d" and "d \<noteq> []"
  shows "run decode text delimiter (int start) (int skip) (int maxc) =
           Inr (window (filter (\<lambda>seg. strip seg \<noteq> [])
                          (map text_of (py_split d (codepoints text)))) start skip maxc) \<and>
         length (window (filter (\<lambda>seg. strip seg \<noteq> [])
                          (map text_of (py_split d (codepoints text)))) start skip maxc) \<le> maxc \<and>
         (length (filter (\<lambda>seg. strip seg \<noteq> [])
                    (map text_of (py_split d (codepoints text)))) \<le> start \<longrightarrow>
            run decode text delimiter (int start) (int skip) (int maxc) = Inr []) \<and>
         (\<forall>sep. d = codepoints sep \<longrightarrow>
            run decode text delimiter (int start) (int skip) (int maxc) =
              Inr (window (filter (\<lambda>seg. strip seg \<noteq> []) (py_split sep text)) start skip maxc)) \<and>
         run (unicode_escape_decode names) ''a,,b,c'' '','' 0 0 10 = Inr [''a'', ''b'', ''c''] \<and>
         run (unicode_escape_decode names) ''a,b,c,d,e'' '','' 1 1 2 = Inr [''b'', ''d'']"
proof (intro conjI impI allI)
  show "run decode text delimiter (int start) (int skip) (int maxc) =
           Inr (window (filter (\<lambda>seg. strip seg \<noteq> [])
                          (map text_of (py_split d (codepoints text)))) start skip maxc)"
    using assms by (rule run_decoded)
next
  show "length (window (filter (\<lambda>seg. strip seg \<noteq> [])
                          (map text_of (py_split d (codepoints text)))) start skip maxc) \<le> maxc"
    by (rule window_length)
next
  assume "length (filter (\<lambda>seg. strip seg \<noteq> [])
                    (map text_of (py_split d (codepoints text)))) \<le> start"
  then show "run decode text delimiter (int start) (int skip) (int maxc) = Inr []"
    using run_decoded [of delimiter decode d "text" start skip maxc] assms
    by (simp add: window_beyond)
next
  fix sep
  assume "d = codepoints sep"
  then show "run decode text delimiter (int start) (int skip) (int maxc) =
              Inr (window (filter (\<lambda>seg. strip seg \<noteq> []) (py_split sep text)) start skip maxc)"
    using run_decoded [of delimiter decode d "text" start skip maxc] assms
    by (simp add: split_codepoints)
next
  have c: "'','' \<noteq> ([] :: string)" "codepoints '','' \<noteq> []"
    by (simp_all add: codepoints_def)
  have w: "window (filter (\<lambda>seg. strip seg \<noteq> []) (py_split '','' ''a,,b,c'')) 0 0 10
             = [''a'', ''b'', ''c'']"
    by code_simp
  from run_decoded [of "'',''" "unicode_escape_decode names" "codepoints '',''" "''a,,b,c''" 0 0 10]
    c decode_plain_comma [of names] w
  show "run (unicode_escape_decode names) ''a,,b,c'' '','' 0 0 10 = Inr [''a'', ''b'', ''c'']"
    by (simp add: split_codepoints)
next
  have c: "'','' \<noteq> ([] :: string)" "codepoints '','' \<noteq> []"
    by (simp_all add: codepoints_def)
  have w: "window (filter (\<lambda>seg. strip seg \<noteq> []) (py_split '','' ''a,b,c,d,e'')) 1 1 2
             = [''b'', ''d'']"
    by code_simp
  from run_decoded [of "'',''" "unicode_escape_decode names" "codepoints '',''" "''a,b,c,d,e''" 1 1 2]
    c decode_plain_comma [of names] w
  show "run (unicode_escape_decode names) ''a,b,c,d,e'' '','' 1 1 2 = Inr [''b'', ''d'']"
    by (simp add: split_codepoints)
qed

theorem run_window_witness:
  "unicode_escape_decode sample_names (CHR 0x5C # ''N{HYPHEN-MINUS}'') = Inr (codepoints ''-'') \<and>
   run (unicode_escape_decode sample_names) ''a-b- -c'' (CHR 0x5C # ''N{HYPHEN-MINUS}'') 0 1 10
     = Inr [''a'', ''c''] \<and>
   unicode_escape_decode sample_names (CHR 0x5C # ''u0100'') = Inr [256] \<and>
   run (unicode_escape_decode sample_names) ''a-b'' (CHR 0x5C # ''u0100'') 0 0 10 = Inr [''a-b'']"
proof -
  let ?dash = "CHR 0x5C # ''N{HYPHEN-MINUS}''"
  let ?macron = "CHR 0x5C # ''u0100''"
  have d1: "unicode_escape_decode sample_names ?dash = Inr (codepoints ''-'')"
    by code_simp
  have d2: "unicode_escape_decode sample_names ?macron = Inr [256]"
    by (simp add: unicode_escape_decode_def utf8_encode_def decode_escapes.simps escape_at_def
        hex_escape_def hex_digit_def oct_digit_def)
  have n1: "?dash \<noteq> []" "codepoints ''-'' \<noteq> []" by (simp_all add: codepoints_def)
  have n2: "?macron \<noteq> []" "[256::nat] \<noteq> []" by simp_all
  have w1: "window (filter (\<lambda>seg. strip seg \<noteq> []) (py_split ''-'' ''a-b- -c'')) 0 1 10
              = [''a'', ''c'']"
    by code_simp
  have w2: "window (filter (\<lambda>seg. strip seg \<noteq> [])
                      (map text_of (py_split [256] (codepoints ''a-b'')))) 0 0 10 = [''a-b'']"
    by code_simp
  note t1 = run_window [of ?dash "unicode_escape_decode sample_names" "codepoints ''-''"
      "''a-b- -c''" 0 1 10, OF n1(1) d1 n1(2)]
  note t2 = run_window [of ?macron "unicode_escape_decode sample_names" "[256]"
      "''a-b''" 0 0 10, OF n2(1) d2 n2(2)]
  from t1 have "\<forall>sep. codepoints ''-'' = codepoints sep \<longrightarrow>
      run (unicode_escape_decode sample_names) ''a-b- -c'' ?dash (int 0) (int 1) (int 10) =
        Inr (window (filter (\<lambda>seg. strip seg \<noteq> []) (py_split sep ''a-b- -c'')) 0 1 10)"
    by (rule conjunct1 [OF conjunct2 [OF conjunct2 [OF conjunct2]]])
  then have "codepoints ''-'' = codepoints ''-'' \<longrightarrow>
      run (unicode_escape_decode sample_names) ''a-b- -c'' ?dash (int 0) (int 1) (int 10) =
        Inr (window (filter (\<lambda>seg. strip seg \<noteq> []) (py_split ''-'' ''a-b- -c'')) 0 1 10)"
    by (rule spec)
  then have "run (unicode_escape_decode sample_names) ''a-b- -c'' ?dash (int 0) (int 1) (int 10) =
        Inr (window (filter (\<lambda>seg. strip seg \<noteq> []) (py_split ''-'' ''a-b- -c'')) 0 1 10)"
    by (rule mp) (rule refl)
  then have r1: "run (unicode_escape_decode sample_names) ''a-b- -c'' ?dash 0 1 10 = Inr [''a'', ''c'']"
    by (simp only: w1) simp
  from t2 have "run (unicode_escape_decode sample_names) ''a-b'' ?macron (int 0) (int 0) (int 10) =
      Inr (window (filter (\<lambda>seg. strip seg \<noteq> [])
                     (map text_of (py_split [256] (codepoints ''a-b'')))) 0 0 10)"
    by (rule conjunct1)
  then have r2: "run (unicode_escape_decode sample_names) ''a-b'' ?macron 0 0 10 = Inr [''a-b'']"
    by (simp only: w2) simp
  from d1 r1 d2 r2 show ?thesis by (intro conjI)
qed

text \<open>
  C3 as stated fails for a delimiter that is not empty but is no valid escape sequence:
  a single backslash makes the codec, and with it \<open>run\<close>, raise UnicodeDecodeError.
  A backslash before a line feed decodes to the empty string, on which \<^verbatim>\<open>split\<close> raises
  ValueError. (Neither escape looks a name up.)
\<close>

theorem run_backslash_raises:
  "run (unicode_escape_decode sample_names) ''a'' [CHR 0x5C] 0 0 1 = Inl UnicodeDecodeError \<and>
   run (unicode_escape_decode sample_names) ''a'' [CHR 0x5C, CHR 0x0A] 0 0 1 = Inl ValueError"
  by (simp add: run_lone_backslash run_backslash_newline)

text \<open>
  C4, as amended. With the empty string as delimiter, \<open>skip_every \<ge> 0\<close> and
  \<open>max_count \<ge> 1\<close>, \<open>run\<close> returns the one-element list of the trimmed text when
  \<open>start_index\<close> is 0, and the empty list when \<open>start_index \<ge> 1\<close>;
  \<^verbatim>\<open>split("x", "", 0, 0, 1) == ["x"]\<close>. The decoder is not called.
\<close>

theorem run_empty_delimiter:
  "run decode text [] (int start) (int skip) (int (Suc m)) =
     Inr (if start = 0 then [strip text] else []) \<and>
   run decode ''x'' [] 0 0 1 = Inr [''x'']"
proof
  show "run decode text [] (int start) (int skip) (int (Suc m)) =
     Inr (if start = 0 then [strip text] else [])"
    by (rule run_no_delimiter)
next
  have "strip ''x'' = ''x''" by code_simp
  with run_no_delimiter [of decode "''x''" 0 0 0]
  show "run decode ''x'' [] 0 0 1 = Inr [''x'']" by simp
qed

text \<open>
  C4 as stated fails for a \<open>start_index\<close> that is not 0: the window is applied to the
  one-element list as well, and \<^verbatim>\<open>split("x", "", 1, 0, 1)\<close> is the empty list.
\<close>

theorem run_empty_delimiter_offset:
  "run (unicode_escape_decode sample_names) ''x'' [] 1 0 1 = Inr []"
  using run_no_delimiter [of "unicode_escape_decode sample_names" "''x''" 1 0 0] by simp

section \<open>The claims about execute\<close>

text \<open>
  C8. For every string prompt, every integer seed and every shape of the hidden inputs,
  \<open>execute\<close> raises nothing while it saves the metadata and returns the resolved prompt;
  when the write cannot happen (the id or \<^verbatim>\<open>png_info\<close> is missing, \<^verbatim>\<open>png_info\<close> or
  \<^verbatim>\<open>workflow\<close> is no dictionary, \<^verbatim>\<open>extra\<close> or the namespace is there but no
  dictionary), \<^verbatim>\<open>png_info\<close> is left as it was and one line is printed after the result.
\<close>

theorem execute_metadata_never_raises:
  assumes "randint_ok R"
  shows "\<exists>out png' printed.
           process_wildcards R (PStr prompt) (PInt seed) w = (Some (Inr out), w) \<and>
           save_metadata (unique_id kw) (png_info kw) out = Inr (png', printed) \<and>
           execute R (PStr prompt) (PInt seed) kw w =
             (Some (Inr out), png', w\<lparr>console := console w @ Result_line (PInt seed) out # printed\<rparr>) \<and>
           (\<not> metadata_writable (unique_id kw) (png_info kw) \<longrightarrow>
              png' = png_info kw \<and> (\<exists>line. printed = [line]))"
proof -
  obtain out where out: "process_wildcards R (PStr prompt) (PInt seed) w = (Some (Inr out), w)"
    using process_wildcards_returns [OF assms] by blast
  obtain png' printed where sm: "save_metadata (unique_id kw) (png_info kw) out = Inr (png', printed)"
    using save_metadata_total by blast
  have sk: "\<not> metadata_writable (unique_id kw) (png_info kw) \<longrightarrow>
          png' = png_info kw \<and> (\<exists>line. printed = [line])"
    using save_metadata_skipped [of "unique_id kw" "png_info kw" out] sm by auto
  from out sm execute_valid [OF out sm] sk show ?thesis by (intro exI conjI)
qed

theorem execute_metadata_never_raises_witness:
  "\<not> metadata_writable (Some ''7'') (PDict [(''workflow'', PDict [(''extra'', PInt 3)])]) \<and>
   (\<exists>out line.
      execute sample_random (PStr ''{a|b}'') (PInt 1)
        \<lparr>unique_id = Some ''7'', png_info = PDict [(''workflow'', PDict [(''extra'', PInt 3)])]\<rparr>
        \<lparr>console = [], shared_random = 0\<rparr>
      = (Some (Inr out), PDict [(''workflow'', PDict [(''extra'', PInt 3)])],
         \<lparr>console = [Result_line (PInt 1) out, line], shared_random = 0\<rparr>))"
proof -
  let ?png = "PDict [(''workflow'', PDict [(''extra'', PInt 3)])]"
  let ?kw = "\<lparr>unique_id = Some ''7'', png_info = ?png\<rparr>"
  let ?w = "\<lparr>console = [], shared_random = 0::nat\<rparr>"
  have n: "\<not> metadata_writable (Some ''7'') ?png"
    by (simp add: metadata_writable_def dict_or_absent_def)
  from execute_metadata_never_raises [OF sample_random_ok, of "''{a|b}''" 1 ?w ?kw]
  obtain out png' printed where
    e: "execute sample_random (PStr ''{a|b}'') (PInt 1) ?kw ?w =
          (Some (Inr out), png', ?w\<lparr>console := console ?w @ Result_line (PInt 1) out # printed\<rparr>)"
    and s: "\<not> metadata_writable (unique_id ?kw) (png_info ?kw) \<longrightarrow>
              png' = png_info ?kw \<and> (\<exists>line. printed = [line])"
    by (elim exE conjE)
  from n have "\<not> metadata_writable (unique_id ?kw) (png_info ?kw)" by simp
  with s have "png' = png_info ?kw" and "\<exists>line. printed = [line]" by (rule mp [THEN conjunct1], rule mp [THEN conjunct2])
  then obtain line where p: "png' = ?png" and l: "printed = [line]" by (elim exE) simp
  have "execute sample_random (PStr ''{a|b}'') (PInt 1) ?kw ?w
      = (Some (Inr out), ?png, \<lparr>console = [Result_line (PInt 1) out, line], shared_random = 0\<rparr>)"
    unfolding e p l by simp
  then have "\<exists>out line. execute sample_random (PStr ''{a|b}'') (PInt 1) ?kw ?w
      = (Some (Inr out), ?png, \<lparr>console = [Result_line (PInt 1) out, line], shared_random = 0\<rparr>)"
    by (intro exI)
  with n show ?thesis by (rule conjI)
qed

text \<open>
  C10. When the write can happen, \<^verbatim>\<open>png_info\<close> after \<open>execute\<close> differs from
  \<^verbatim>\<open>png_info\<close> before it in one entry only: under \<^verbatim>\<open>workflow\<close>, \<^verbatim>\<open>extra\<close>,
  \<^verbatim>\<open>stable-wildcards\<close> the id is mapped to the resolved prompt. Every other key of
  \<^verbatim>\<open>png_info\<close>, \<^verbatim>\<open>workflow\<close>, \<^verbatim>\<open>extra\<close> and the namespace keeps its value, \<^verbatim>\<open>extra\<close> and
  the namespace start empty only when they were absent, and the prompt that is returned is
  the same for all hidden inputs.
\<close>

theorem execute_writes_one_entry:
  assumes "randint_ok R" and "metadata_writable (unique_id kw) (png_info kw)"
  shows "\<exists>out key info workflow info' workflow' extra' ns' w'.
     unique_id kw = Some key \<and> png_info kw = PDict info \<and>
     map_of info ''workflow'' = Some (PDict workflow) \<and>
     execute R (PStr prompt) (PInt seed) kw w = (Some (Inr out), PDict info', w') \<and>
     map_of info' = (map_of info)(''workflow'' \<mapsto> PDict workflow') \<and>
     map_of workflow' = (map_of workflow)(''extra'' \<mapsto> PDict extra') \<and>
     map_of extra' = (map_of (stored_dict workflow ''extra''))(''stable-wildcards'' \<mapsto> PDict ns') \<and>
     map_of ns' =
       (map_of (stored_dict (stored_dict workflow ''extra'') ''stable-wildcards''))(key \<mapsto> PStr out) \<and>
     (\<forall>kw'. fst (execute R (PStr prompt) (PInt seed) kw' w) = Some (Inr out))"
proof -
  obtain out where out: "\<And>w. process_wildcards R (PStr prompt) (PInt seed) w = (Some (Inr out), w)"
    using process_wildcards_returns [OF assms(1)] by blast
  from metadata_writableD [OF assms(2)] obtain key info workflow where
    k: "unique_id kw = Some key" and i: "png_info kw = PDict info"
    and wf: "map_of info ''workflow'' = Some (PDict workflow)"
    and d1: "dict_or_absent (map_of workflow ''extra'')"
    and d2: "dict_or_absent (map_of (stored_dict workflow ''extra'') ''stable-wildcards'')"
    by blast
  let ?ns = "AList.update key (PStr out) (stored_dict (stored_dict workflow ''extra'') ''stable-wildcards'')"
  let ?extra = "AList.update ''stable-wildcards'' (PDict ?ns) (stored_dict workflow ''extra'')"
  let ?workflow = "AList.update ''extra'' (PDict ?extra) workflow"
  let ?info = "AList.update ''workflow'' (PDict ?workflow) info"
  have sm: "save_metadata (unique_id kw) (png_info kw) out = Inr (PDict ?info, [])"
    using save_metadata_write [OF wf d1 d2] k i by simp
  have e: "execute R (PStr prompt) (PInt seed) kw w =
      (Some (Inr out), PDict ?info, w\<lparr>console := console w @ Result_line (PInt seed) out # []\<rparr>)"
    by (rule execute_valid [OF out sm])
  have all: "\<forall>kw'. fst (execute R (PStr prompt) (PInt seed) kw' w) = Some (Inr out)"
  proof
    fix kw' :: kwargs
    obtain png' printed where "save_metadata (unique_id kw') (png_info kw') out = Inr (png', printed)"
      using save_metadata_total by blast
    from execute_valid [OF out this]
    show "fst (execute R (PStr prompt) (PInt seed) kw' w) = Some (Inr out)" by simp
  qed
  have m1: "map_of ?info = (map_of info)(''workflow'' \<mapsto> PDict ?workflow)"
    and m2: "map_of ?workflow = (map_of workflow)(''extra'' \<mapsto> PDict ?extra)"
    and m3: "map_of ?extra =
       (map_of (stored_dict workflow ''extra''))(''stable-wildcards'' \<mapsto> PDict ?ns)"
    and m4: "map_of ?ns =
       (map_of (stored_dict (stored_dict workflow ''extra'') ''stable-wildcards''))(key \<mapsto> PStr out)"
    by (simp_all only: update_conv')
  from k i wf e m1 m2 m3 m4 all show ?thesis by (intro exI conjI)
qed

theorem execute_writes_one_entry_witness:
  "metadata_writable (Some ''12'')
     (PDict [(''workflow'', PDict [(''nodes'', PList []), (''extra'', PDict [(''ds'', PInt 1)])]),
             (''prompt'', PStr ''p'')]) \<and>
   (\<exists>out info' workflow' extra' ns' w'.
      execute sample_random (PStr ''a {x|y} b'') (PInt 0)
        \<lparr>unique_id = Some ''12'',
         png_info = PDict [(''workflow'', PDict [(''nodes'', PList []), (''extra'', PDict [(''ds'', PInt 1)])]),
                           (''prompt'', PStr ''p'')]\<rparr>
        \<lparr>console = [], shared_random = 0\<rparr>
      = (Some (Inr out), PDict info', w') \<and>
      map_of info' =
        (map_of [(''workflow'', PDict [(''nodes'', PList []), (''extra'', PDict [(''ds'', PInt 1)])]),
                 (''prompt'', PStr ''p'')])(''workflow'' \<mapsto> PDict workflow') \<and>
      map_of workflow' =
        (map_of [(''nodes'', PList []), (''extra'', PDict [(''ds'', PInt 1)])])(''extra'' \<mapsto> PDict extra') \<and>
      map_of extra' = (map_of [(''ds'', PInt 1)])(''stable-wildcards'' \<mapsto> PDict ns') \<and>
      map_of ns' = (map_of [])(''12'' \<mapsto> PStr out))"
proof -
  let ?wf = "[(''nodes'', PList []), (''extra'', PDict [(''ds'', PInt 1)])]"
  let ?info = "[(''workflow'', PDict ?wf), (''prompt'', PStr ''p'')]"
  let ?kw = "\<lparr>unique_id = Some ''12'', png_info = PDict ?info\<rparr>"
  let ?w = "\<lparr>console = [], shared_random = 0::nat\<rparr>"
  have sd1: "stored_dict ?wf ''extra'' = [(''ds'', PInt 1)]"
    by (simp add: stored_dict_def)
  have sd2: "stored_dict [(''ds'', PInt 1)] ''stable-wildcards'' = []"
    by (simp add: stored_dict_def)
  have mw: "metadata_writable (Some ''12'') (PDict ?info)"
    by (simp add: metadata_writable_def dict_or_absent_def sd1)
  then have mw': "metadata_writable (unique_id ?kw) (png_info ?kw)" by simp
  from execute_writes_one_entry [OF sample_random_ok mw', of "''a {x|y} b''" 0 ?w]
  obtain out key info workflow info' workflow' extra' ns' w' where
    k: "unique_id ?kw = Some key" and i: "png_info ?kw = PDict info"
    and wf: "map_of info ''workflow'' = Some (PDict workflow)"
    and e: "execute sample_random (PStr ''a {x|y} b'') (PInt 0) ?kw ?w = (Some (Inr out), PDict info', w')"
    and m1: "map_of info' = (map_of info)(''workflow'' \<mapsto> PDict workflow')"
    and m2: "map_of workflow' = (map_of workflow)(''extra'' \<mapsto> PDict extra')"
    and m3: "map_of extra' = (map_of (stored_dict workflow ''extra''))(''stable-wildcards'' \<mapsto> PDict ns')"
    and m4: "map_of ns' =
       (map_of (stored_dict (stored_dict workflow ''extra'') ''stable-wildcards''))(key \<mapsto> PStr out)"
    by (elim exE conjE)
  from k have key: "key = ''12''" by simp
  from i have info: "info = ?info" by simp
  from wf info have workflow: "workflow = ?wf" by simp
  note m1' = m1 [unfolded info]
  note m2' = m2 [unfolded workflow]
  note m3' = m3 [unfolded workflow sd1]
  note m4' = m4 [unfolded workflow sd1 sd2 key]
  from e m1' m2' m3' m4' have
    "\<exists>out info' workflow' extra' ns' w'.
      execute sample_random (PStr ''a {x|y} b'') (PInt 0) ?kw ?w = (Some (Inr out), PDict info', w') \<and>
      map_of info' = (map_of ?info)(''workflow'' \<mapsto> PDict workflow') \<and>
      map_of workflow' = (map_of ?wf)(''extra'' \<mapsto> PDict extra') \<and>
      map_of extra' = (map_of [(''ds'', PInt 1)])(''stable-wildcards'' \<mapsto> PDict ns') \<and>
      map_of ns' = (map_of [])(''12'' \<mapsto> PStr out)"
    by (intro exI conjI)
  with mw show ?thesis by (rule conjI)
qed

end
